theory Spec2Isabelle
  imports Main "HOL-Library.Product_Lexorder"
begin

section \<open>Data model\<close>

text \<open>
  The schedule subsystem of pretalx: \<^verbatim>\<open>schedule/models/schedule.py\<close> (the Schedule
  model with \<^verbatim>\<open>unfreeze\<close>, \<^verbatim>\<open>scheduled_talks\<close>, \<^verbatim>\<open>previous_schedule\<close>),
  \<^verbatim>\<open>schedule/actions.py\<close> (\<^verbatim>\<open>freeze_schedule\<close>, \<^verbatim>\<open>create_release_notifications\<close>)
  and \<^verbatim>\<open>schedule/selectors.py\<close> (the diff and the notification mapping).

  Model objects are records. A foreign key that the code only navigates
  (\<^verbatim>\<open>slot.submission.state\<close>, \<^verbatim>\<open>slot.room.name\<close>, \<^verbatim>\<open>schedule.event\<close>) is the
  referenced object itself, as \<^verbatim>\<open>select_related\<close> loads it; the foreign key from a
  slot to its schedule, whose rows the code updates, creates and deletes, is the
  schedule's primary key. Timestamps are instants (integers); primary keys and users
  are natural numbers.
\<close>

text \<open>
  Modelled from the spec: the enum \<^verbatim>\<open>SubmissionStates\<close> (pretalx.submission.models) is
  not part of the sources; the spec gives it "at least CONFIRMED and DELETED".
\<close>

datatype SubmissionStates = CONFIRMED | DELETED | OTHER_STATE string

record Submission =
  sub_pk :: nat
  state :: SubmissionStates
  speakers :: "nat list"

record Room =
  room_pk :: nat
  room_name :: string
  speaker_info :: string

record Event =
  event_pk :: nat
  timezone :: string
  export_html_on_schedule_release :: bool

record Schedule =
  pk :: nat
  event :: Event
  version :: "string option"
  published :: "int option"

record TalkSlot =
  slot_pk :: nat
  schedule_id :: nat
  submission :: Submission
  room :: "Room option"
  start :: "int option"
  end_time :: "int option"
  is_visible :: bool

text \<open>A datetime converted by \<^verbatim>\<open>astimezone(tz)\<close>: the same instant, shown in zone \<open>tz\<close>.\<close>

record LocalTime =
  instant :: int
  zone :: string

definition astimezone :: "int \<Rightarrow> string \<Rightarrow> LocalTime" where
  "astimezone t tz = \<lparr>instant = t, zone = tz\<rparr>"

text \<open>The dictionaries appended to \<^verbatim>\<open>moved\<close> in \<^verbatim>\<open>_handle_submission_move\<close>.\<close>

record MovedTalk =
  moved_submission :: Submission
  old_start :: LocalTime
  new_start :: LocalTime
  old_room :: string
  new_room :: string
  new_info :: string

text \<open>The dictionary \<^verbatim>\<open>result\<close> of \<^verbatim>\<open>compare_schedule_with_predecessor\<close>.\<close>

record ChangeSet =
  count :: nat
  action :: string
  new_talks :: "TalkSlot list"
  canceled_talks :: "TalkSlot list"
  moved_talks :: "MovedTalk list"

text \<open>
  Exceptions are values. \<^verbatim>\<open>freeze_schedule\<close> and \<^verbatim>\<open>unfreeze\<close> raise Python's base
  class \<^verbatim>\<open>Exception\<close> with a message; \<^verbatim>\<open>AttributeError\<close> is what an attribute access on
  \<^verbatim>\<open>None\<close> raises; \<^verbatim>\<open>IntegrityError\<close> and \<^verbatim>\<open>DatabaseError\<close> come from the database
  (the \<^verbatim>\<open>unique_together\<close> constraint, an \<^verbatim>\<open>UPDATE\<close> that matches no row);
  \<^verbatim>\<open>DoesNotExist\<close> stands for a lookup without a row. \<^verbatim>\<open>NameError\<close> is raised by
  reading a global name that the module has not bound, \<^verbatim>\<open>ImportError\<close> by importing a
  name that a module does not define, \<^verbatim>\<open>TypeError\<close> by subscripting a list with an
  object. \<^verbatim>\<open>ValidationError\<close> is the class the specification names; no function of the
  sources raises it.
\<close>

datatype error =
    Exception string
  | ValidationError string
  | AttributeError
  | IntegrityError
  | DatabaseError
  | DoesNotExist
  | NameError string
  | ImportError string
  | TypeError

section \<open>Slots\<close>

text \<open>The row \<^verbatim>\<open>values_list('submission', 'room', 'start', named=True)\<close> yields for a slot.\<close>

type_synonym slot_key = "nat \<times> nat option \<times> int option"

definition slot_key :: "TalkSlot \<Rightarrow> slot_key" where
  "slot_key slot = (sub_pk (submission slot), map_option room_pk (room slot), start slot)"

text \<open>
  Modelled from the spec: \<^verbatim>\<open>TalkSlot.is_same_slot\<close> (schedule/models/slot.py) is not part
  of the sources. The spec: two slots are "the same placement" iff they share
  \<open>(submission, room, start)\<close>; end time and identity are irrelevant.
\<close>

definition is_same_slot :: "TalkSlot \<Rightarrow> TalkSlot \<Rightarrow> bool" where
  "is_same_slot slot other_slot \<longleftrightarrow> slot_key slot = slot_key other_slot"

text \<open>
  Modelled from the spec: \<^verbatim>\<open>TalkSlot.copy_to_schedule\<close> (schedule/models/slot.py) is not
  part of the sources. The spec: a deep copy with a new identity and the same
  submission, room, start, end and visibility. The primary key is the one the database
  assigns on insertion.
\<close>

definition copy_to_schedule :: "TalkSlot \<Rightarrow> Schedule \<Rightarrow> nat \<Rightarrow> TalkSlot" where
  "copy_to_schedule talk new_schedule new_pk =
     talk\<lparr>slot_pk := new_pk, schedule_id := pk new_schedule\<rparr>"

section \<open>The diff of one submission\<close>

text \<open>
  One iteration of the loop \<^verbatim>\<open>for move in zip(old_slots, new_slots)\<close>: the dictionary
  built from a pair. \<^verbatim>\<open>old_slot.start.astimezone(tz)\<close> and \<^verbatim>\<open>old_slot.room.name\<close> raise
  \<^verbatim>\<open>AttributeError\<close> when the start or the room is \<^verbatim>\<open>None\<close>.
\<close>

definition moved_entry :: "string \<Rightarrow> TalkSlot \<Rightarrow> TalkSlot \<Rightarrow> error + MovedTalk" where
  "moved_entry tz old_slot new_slot =
     (case start old_slot of
        None \<Rightarrow> Inl AttributeError
      | Some old_s \<Rightarrow>
         (case start new_slot of
            None \<Rightarrow> Inl AttributeError
          | Some new_s \<Rightarrow>
             (case room old_slot of
                None \<Rightarrow> Inl AttributeError
              | Some old_r \<Rightarrow>
                 (case room new_slot of
                    None \<Rightarrow> Inl AttributeError
                  | Some new_r \<Rightarrow>
                      Inr \<lparr>moved_submission = submission new_slot,
                           old_start = astimezone old_s tz,
                           new_start = astimezone new_s tz,
                           old_room = room_name old_r,
                           new_room = room_name new_r,
                           new_info = speaker_info new_r\<rparr>))))"

fun moved_loop :: "string \<Rightarrow> (TalkSlot \<times> TalkSlot) list \<Rightarrow> MovedTalk list \<Rightarrow> error + MovedTalk list" where
  "moved_loop tz [] moved = Inr moved"
| "moved_loop tz (move # rest) moved =
     (case moved_entry tz (fst move) (snd move) of
        Inl e \<Rightarrow> Inl e
      | Inr m \<Rightarrow> moved_loop tz rest (moved @ [m]))"

text \<open>
  Lines 34 to 37 of \<^verbatim>\<open>_handle_submission_move\<close> for one side: the slots of the
  submission in \<open>slots\<close> that have no structural counterpart among the slots of the
  submission in \<open>other_slots\<close>.
\<close>

definition unmatched :: "nat \<Rightarrow> TalkSlot list \<Rightarrow> TalkSlot list \<Rightarrow> TalkSlot list" where
  "unmatched submission_pk slots other_slots =
     (let all_slots = filter (\<lambda>slot. sub_pk (submission slot) = submission_pk) slots;
          all_other_slots = filter (\<lambda>slot. sub_pk (submission slot) = submission_pk) other_slots
      in filter (\<lambda>slot. \<not> list_ex (\<lambda>other_slot. is_same_slot slot other_slot) all_other_slots)
           all_slots)"

text \<open>
  \<^verbatim>\<open>_handle_submission_move(submission_pk, old_slots, new_slots, tz)\<close>. The two
  querysets are lists in the order the database yields them; \<^verbatim>\<open>xs[:diff]\<close> is
  \<open>take\<close>, \<^verbatim>\<open>xs[diff:]\<close> is \<open>drop\<close>, \<open>diff\<close> is a Python integer.
\<close>

definition handle_submission_move ::
  "nat \<Rightarrow> TalkSlot list \<Rightarrow> TalkSlot list \<Rightarrow> string
     \<Rightarrow> error + (TalkSlot list \<times> TalkSlot list \<times> MovedTalk list)" where
  "handle_submission_move submission_pk old_slots new_slots tz =
     (let all_old_slots = filter (\<lambda>slot. sub_pk (submission slot) = submission_pk) old_slots;
          all_new_slots = filter (\<lambda>slot. sub_pk (submission slot) = submission_pk) new_slots;
          old_slots1 = filter (\<lambda>slot. \<not> list_ex (\<lambda>other_slot. is_same_slot slot other_slot) all_new_slots)
                         all_old_slots;
          new_slots1 = filter (\<lambda>slot. \<not> list_ex (\<lambda>other_slot. is_same_slot slot other_slot) all_old_slots)
                         all_new_slots;
          diff = int (length old_slots1) - int (length new_slots1);
          new = (if diff > 0 then [] else if diff < 0 then take (nat (- diff)) new_slots1 else []);
          canceled = (if diff > 0 then take (nat diff) old_slots1 else []);
          old_slots2 = (if diff > 0 then drop (nat diff) old_slots1 else old_slots1);
          new_slots2 = (if diff > 0 then new_slots1
                        else if diff < 0 then drop (nat (- diff)) new_slots1 else new_slots1)
      in case moved_loop tz (zip old_slots2 new_slots2) [] of
           Inl e \<Rightarrow> Inl e
         | Inr moved \<Rightarrow> Inr (new, canceled, moved))"

section \<open>The database\<close>

text \<open>
  The payload a speaker is notified with: the values
  \<^verbatim>\<open>{'create': [...], 'update': [...]}\<close> of the dictionary
  \<^verbatim>\<open>speakers_with_changed_slots\<close> returns.
\<close>

record Notification =
  create :: "TalkSlot list"
  update :: "MovedTalk list"

text \<open>
  A queued mail. Rendering (\<^verbatim>\<open>get_template(...).render\<close>, \<^verbatim>\<open>update_template.to_mail\<close>)
  belongs to the mail collaborator; the mail keeps the recipient, the event and the
  notification data it is rendered from.
\<close>

record QueuedMail =
  mail_user :: nat
  mail_event :: nat
  notifications :: Notification

text \<open>
  The tables the code reads and writes, each a list of rows in the order the database
  yields them, the audit log, the outbox, the export tasks sent to the task queue, and
  the sequences that give new rows their primary keys.
\<close>

record Database =
  schedules :: "Schedule list"
  talkslots :: "TalkSlot list"
  action_log :: "(string \<times> nat \<times> nat) list"
  queued_mails :: "QueuedMail list"
  export_tasks :: "nat list"
  next_schedule_pk :: nat
  next_slot_pk :: nat

text \<open>The reverse relation \<^verbatim>\<open>schedule.talks\<close>.\<close>

definition talks :: "Database \<Rightarrow> Schedule \<Rightarrow> TalkSlot list" where
  "talks db self = filter (\<lambda>talk. schedule_id talk = pk self) (talkslots db)"

text \<open>\<^verbatim>\<open>Schedule.scheduled_talks\<close>.\<close>

definition scheduled_talks :: "Database \<Rightarrow> Schedule \<Rightarrow> TalkSlot list" where
  "scheduled_talks db self =
     filter (\<lambda>talk. state (submission talk) \<noteq> DELETED)
       (filter (\<lambda>talk. room talk \<noteq> None \<and> start talk \<noteq> None \<and> is_visible talk = True)
          (talks db self))"

text \<open>
  \<^verbatim>\<open>order_by('-published')\<close>: descending by the timestamp. Where rows without a
  timestamp go depends on the database backend (first on PostgreSQL, last on SQLite and
  MySQL), so it is the parameter \<open>nulls_first\<close>. Rows with equal keys keep their order.
\<close>

definition minus_published :: "bool \<Rightarrow> Schedule \<Rightarrow> nat \<times> int" where
  "minus_published nulls_first s =
     (case published s of
        None \<Rightarrow> (if nulls_first then 0 else 2, 0)
      | Some p \<Rightarrow> (1, - p))"

text \<open>\<^verbatim>\<open>QuerySet.first()\<close>.\<close>

definition first :: "'a list \<Rightarrow> 'a option" where
  "first queryset = (case queryset of [] \<Rightarrow> None | x # _ \<Rightarrow> Some x)"

text \<open>
  \<^verbatim>\<open>Schedule.previous_schedule\<close>. \<^verbatim>\<open>self.event.schedules\<close> are the schedules of the
  same event; \<^verbatim>\<open>if self.published\<close> holds for every datetime and fails for \<^verbatim>\<open>None\<close>;
  \<^verbatim>\<open>published__lt\<close> never matches a row without a timestamp. The property is
  recomputed at each use.
\<close>

definition previous_schedule :: "bool \<Rightarrow> Database \<Rightarrow> Schedule \<Rightarrow> Schedule option" where
  "previous_schedule nulls_first db self =
     (let queryset = filter (\<lambda>s. pk s \<noteq> pk self)
                       (filter (\<lambda>s. event_pk (event s) = event_pk (event self)) (schedules db));
          queryset1 = (case published self of
                         None \<Rightarrow> queryset
                       | Some p \<Rightarrow>
                           filter (\<lambda>s. case published s of None \<Rightarrow> False | Some q \<Rightarrow> q < p)
                             queryset)
      in first (sort_key (minus_published nulls_first) queryset1))"

section \<open>The diff of two schedules\<close>

text \<open>
  The loop \<^verbatim>\<open>for entry in moved_or_missing\<close> of \<^verbatim>\<open>compare_schedule_with_predecessor\<close>,
  on the entries still to visit, the \<^verbatim>\<open>result\<close> dictionary and the set
  \<^verbatim>\<open>handled_submissions\<close>. An exception of \<^verbatim>\<open>_handle_submission_move\<close> ends it.
\<close>

fun missing_loop ::
  "TalkSlot list \<Rightarrow> TalkSlot list \<Rightarrow> nat set \<Rightarrow> string \<Rightarrow> slot_key list
     \<Rightarrow> ChangeSet \<times> nat set \<Rightarrow> error + (ChangeSet \<times> nat set)" where
  "missing_loop old_slots new_slots new_submissions tz [] st = Inr st"
| "missing_loop old_slots new_slots new_submissions tz (entry # rest) (result, handled_submissions) =
     (if fst entry \<in> handled_submissions
      then missing_loop old_slots new_slots new_submissions tz rest (result, handled_submissions)
      else if fst entry \<notin> new_submissions
      then missing_loop old_slots new_slots new_submissions tz rest
             (result\<lparr>canceled_talks := canceled_talks result
                        @ filter (\<lambda>slot. sub_pk (submission slot) = fst entry) old_slots\<rparr>,
              insert (fst entry) handled_submissions)
      else (case handle_submission_move (fst entry) old_slots new_slots tz of
              Inl e \<Rightarrow> Inl e
            | Inr (new, canceled, moved) \<Rightarrow>
                missing_loop old_slots new_slots new_submissions tz rest
                  (result\<lparr>new_talks := new_talks result @ new,
                          canceled_talks := canceled_talks result @ canceled,
                          moved_talks := moved_talks result @ moved\<rparr>,
                   insert (fst entry) handled_submissions)))"

text \<open>The loop \<^verbatim>\<open>for entry in moved_or_new\<close>.\<close>

fun new_loop ::
  "TalkSlot list \<Rightarrow> TalkSlot list \<Rightarrow> nat set \<Rightarrow> string \<Rightarrow> slot_key list
     \<Rightarrow> ChangeSet \<times> nat set \<Rightarrow> error + (ChangeSet \<times> nat set)" where
  "new_loop old_slots new_slots old_submissions tz [] st = Inr st"
| "new_loop old_slots new_slots old_submissions tz (entry # rest) (result, handled_submissions) =
     (if fst entry \<in> handled_submissions
      then new_loop old_slots new_slots old_submissions tz rest (result, handled_submissions)
      else if fst entry \<notin> old_submissions
      then new_loop old_slots new_slots old_submissions tz rest
             (result\<lparr>new_talks := new_talks result
                        @ filter (\<lambda>slot. sub_pk (submission slot) = fst entry) new_slots\<rparr>,
              insert (fst entry) handled_submissions)
      else (case handle_submission_move (fst entry) old_slots new_slots tz of
              Inl e \<Rightarrow> Inl e
            | Inr (new, canceled, moved) \<Rightarrow>
                new_loop old_slots new_slots old_submissions tz rest
                  (result\<lparr>new_talks := new_talks result @ new,
                          canceled_talks := canceled_talks result @ canceled,
                          moved_talks := moved_talks result @ moved\<rparr>,
                   insert (fst entry) handled_submissions)))"

text \<open>
  \<^verbatim>\<open>compare_schedule_with_predecessor(schedule)\<close>. Python does not fix the order in
  which a \<^verbatim>\<open>set\<close> is iterated: \<open>iter\<close> is that order, mapping the elements of a set
  (a list without regard to order and repetition) to the sequence the loop visits.
  \<open>schedule_tz\<close> is the property \<^verbatim>\<open>Schedule.tz\<close>, \<^verbatim>\<open>pytz.timezone(self.event.timezone)\<close>,
  kept by its name.
\<close>

definition schedule_tz :: "Schedule \<Rightarrow> string" where
  "schedule_tz self = timezone (event self)"

definition compare_schedule_with_predecessor ::
  "(slot_key list \<Rightarrow> slot_key list) \<Rightarrow> bool \<Rightarrow> Database \<Rightarrow> Schedule \<Rightarrow> error + ChangeSet" where
  "compare_schedule_with_predecessor iter nulls_first db schedule =
     (let result = \<lparr>count = 0, action = ''update'', new_talks = [], canceled_talks = [],
                     moved_talks = []\<rparr>
      in case previous_schedule nulls_first db schedule of
           None \<Rightarrow> Inr (result\<lparr>action := ''create''\<rparr>)
         | Some previous \<Rightarrow>
             (let old_slots = scheduled_talks db previous;
                  new_slots = scheduled_talks db schedule;
                  old_slot_set = map slot_key old_slots;
                  new_slot_set = map slot_key new_slots;
                  old_submissions = set (map (\<lambda>slot. sub_pk (submission slot)) old_slots);
                  new_submissions = set (map (\<lambda>slot. sub_pk (submission slot)) new_slots);
                  handled_submissions = {};
                  moved_or_missing = iter (filter (\<lambda>entry. entry \<notin> set new_slot_set) old_slot_set);
                  moved_or_new = iter (filter (\<lambda>entry. entry \<notin> set old_slot_set) new_slot_set)
              in case missing_loop old_slots new_slots new_submissions (schedule_tz schedule)
                        moved_or_missing (result, handled_submissions) of
                   Inl e \<Rightarrow> Inl e
                 | Inr st1 \<Rightarrow>
                     (case new_loop old_slots new_slots old_submissions (schedule_tz schedule)
                             moved_or_new st1 of
                        Inl e \<Rightarrow> Inl e
                      | Inr (result2, handled2) \<Rightarrow>
                          Inr (result2\<lparr>count := length (new_talks result2)
                                          + length (canceled_talks result2)
                                          + length (moved_talks result2)\<rparr>))))"

section \<open>One classification for each submission\<close>

text \<open>
  The classification step of the two loops as functions of the submission, and the
  loops as the specification describes them: each submission of a list classified once,
  in order. These are compared with \<open>missing_loop\<close> and \<open>new_loop\<close> below.
\<close>

type_synonym classification = "TalkSlot list \<times> TalkSlot list \<times> MovedTalk list"

definition classify_removed ::
  "TalkSlot list \<Rightarrow> TalkSlot list \<Rightarrow> string \<Rightarrow> nat \<Rightarrow> error + classification" where
  "classify_removed old_slots new_slots z submission_pk =
     (if submission_pk \<notin> set (map (\<lambda>slot. sub_pk (submission slot)) new_slots)
      then Inr ([], filter (\<lambda>slot. sub_pk (submission slot) = submission_pk) old_slots, [])
      else handle_submission_move submission_pk old_slots new_slots z)"

definition classify_added ::
  "TalkSlot list \<Rightarrow> TalkSlot list \<Rightarrow> string \<Rightarrow> nat \<Rightarrow> error + classification" where
  "classify_added old_slots new_slots z submission_pk =
     (if submission_pk \<notin> set (map (\<lambda>slot. sub_pk (submission slot)) old_slots)
      then Inr (filter (\<lambda>slot. sub_pk (submission slot) = submission_pk) new_slots, [], [])
      else handle_submission_move submission_pk old_slots new_slots z)"

fun classify_each :: "(nat \<Rightarrow> error + classification) \<Rightarrow> nat list \<Rightarrow> ChangeSet \<Rightarrow> error + ChangeSet" where
  "classify_each step [] result = Inr result"
| "classify_each step (submission_pk # rest) result =
     (case step submission_pk of
        Inl e \<Rightarrow> Inl e
      | Inr (new, canceled, moved) \<Rightarrow>
          classify_each step rest
            (result\<lparr>new_talks := new_talks result @ new,
                    canceled_talks := canceled_talks result @ canceled,
                    moved_talks := moved_talks result @ moved\<rparr>))"

text \<open>
  The submissions of a list of entries that the loops classify, in the order of their
  first entry: those not handled before.
\<close>

fun unhandled :: "nat set \<Rightarrow> nat list \<Rightarrow> nat list" where
  "unhandled handled [] = []"
| "unhandled handled (p # ps) =
     (if p \<in> handled then unhandled handled ps else p # unhandled (insert p handled) ps)"

section \<open>Names\<close>

text \<open>
  A function reads a global name in the namespace of its module: the names that the
  module's import statements and definitions bind. Reading a name that is not there
  raises \<^verbatim>\<open>NameError\<close>. \<^verbatim>\<open>schedule/selectors.py\<close> has no import statement and defines
  three functions; \<^verbatim>\<open>schedule/actions.py\<close> imports five names and defines two functions.
  The functions of these two modules take the namespaces as arguments, so that what
  they do can be stated for the modules as they are and for modules that bind more.
\<close>

type_synonym namespace = "string list"

definition selectors_globals :: namespace where
  "selectors_globals =
     [''speakers_with_changed_slots'', ''_handle_submission_move'',
      ''compare_schedule_with_predecessor'']"

definition actions_globals :: namespace where
  "actions_globals =
     [''transaction'', ''export_schedule_html'', ''now'', ''TalkSlot'', ''QueuedMail'',
      ''freeze_schedule'', ''create_release_notifications'']"

text \<open>The first of the names, in the order they are read, that the namespace lacks.\<close>

definition unbound :: "namespace \<Rightarrow> string list \<Rightarrow> string option" where
  "unbound globals names = find (\<lambda>n. n \<notin> set globals) names"

text \<open>Reading the names and going on, or the \<^verbatim>\<open>NameError\<close> of the first unbound one.\<close>

definition reading :: "namespace \<Rightarrow> string list \<Rightarrow> error + 'a \<Rightarrow> error + 'a" where
  "reading globals names continue =
     (case unbound globals names of Some n \<Rightarrow> Inl (NameError n) | None \<Rightarrow> continue)"

section \<open>Notifications\<close>

text \<open>
  A dictionary from speakers to notifications is an association list in insertion
  order, as Python keeps it. \<open>dict_set\<close> is \<^verbatim>\<open>d[k] = v\<close>; \<open>defaultdict_update\<close> is a
  change to \<^verbatim>\<open>d[k]\<close> of a \<^verbatim>\<open>defaultdict\<close>, which first inserts the default under a
  missing key.
\<close>

fun dict_set :: "'k \<Rightarrow> 'v \<Rightarrow> ('k \<times> 'v) list \<Rightarrow> ('k \<times> 'v) list" where
  "dict_set k v [] = [(k, v)]"
| "dict_set k v ((k', v') # kvs) =
     (if k' = k then (k', v) # kvs else (k', v') # dict_set k v kvs)"

fun defaultdict_update :: "'v \<Rightarrow> 'k \<Rightarrow> ('v \<Rightarrow> 'v) \<Rightarrow> ('k \<times> 'v) list \<Rightarrow> ('k \<times> 'v) list" where
  "defaultdict_update dflt k f [] = [(k, f dflt)]"
| "defaultdict_update dflt k f ((k', v') # kvs) =
     (if k' = k then (k', f v') # kvs else (k', v') # defaultdict_update dflt k f kvs)"

text \<open>
  What \<^verbatim>\<open>speakers_with_changed_slots\<close> returns: a dictionary from speakers to
  notifications in two of its branches, and the list \<^verbatim>\<open>[]\<close> in the third.
\<close>

datatype speakers_concerned =
    PyList "nat list"
  | PyDict "(nat \<times> Notification) list"

text \<open>
  \<^verbatim>\<open>speakers_with_changed_slots(schedule)\<close>, in the namespace of \<^verbatim>\<open>selectors.py\<close>. The
  \<^verbatim>\<open>create\<close> branch reads \<^verbatim>\<open>User\<close>: \<^verbatim>\<open>User.objects.filter(submissions__slots__schedule=schedule)\<close>
  joins the users with the slots of the schedule through their submissions. The branch
  for cancellations only returns the list \<^verbatim>\<open>[]\<close>. The last branch reads
  \<^verbatim>\<open>defaultdict\<close>.
\<close>

definition speakers_with_changed_slots ::
  "namespace \<Rightarrow> (slot_key list \<Rightarrow> slot_key list) \<Rightarrow> bool \<Rightarrow> Database \<Rightarrow> Schedule
     \<Rightarrow> error + speakers_concerned" where
  "speakers_with_changed_slots globals iter nulls_first db schedule =
     (case compare_schedule_with_predecessor iter nulls_first db schedule of
        Inl e \<Rightarrow> Inl e
      | Inr changes \<Rightarrow>
          if action changes = ''create''
          then reading globals [''User'']
                 (Inr (PyDict (foldl
                    (\<lambda>d speaker.
                       dict_set speaker
                         \<lparr>create = filter (\<lambda>talk. speaker \<in> set (speakers (submission talk)))
                                     (talks db schedule),
                          update = []\<rparr> d)
                    [] (concat (map (\<lambda>talk. speakers (submission talk)) (talks db schedule))))))
          else if count changes = length (canceled_talks changes)
          then Inr (PyList [])
          else reading globals [''defaultdict'']
            (let speakers0 = [];
                 speakers1 = foldl
                   (\<lambda>d new_talk.
                      foldl (\<lambda>d speaker.
                               defaultdict_update \<lparr>create = [], update = []\<rparr> speaker
                                 (\<lambda>n. n\<lparr>create := create n @ [new_talk]\<rparr>) d)
                        d (speakers (submission new_talk)))
                   speakers0 (new_talks changes);
                 speakers2 = foldl
                   (\<lambda>d moved_talk.
                      foldl (\<lambda>d speaker.
                               defaultdict_update \<lparr>create = [], update = []\<rparr> speaker
                                 (\<lambda>n. n\<lparr>update := update n @ [moved_talk]\<rparr>) d)
                        d (speakers (moved_submission moved_talk)))
                   speakers1 (moved_talks changes)
             in Inr (PyDict speakers2)))"

text \<open>
  The loop \<^verbatim>\<open>for speaker in speakers_concerned\<close> of \<^verbatim>\<open>create_release_notifications\<close>.
  Its body reads \<^verbatim>\<open>override\<close>, \<^verbatim>\<open>tzoverride\<close>, \<^verbatim>\<open>get_template\<close> and
  \<^verbatim>\<open>template_context_from_event\<close>, and subscripts \<^verbatim>\<open>speakers_concerned\<close> with the
  speaker; it does not run when there is no speaker.
\<close>

definition release_mails :: "namespace \<Rightarrow> Schedule \<Rightarrow> speakers_concerned \<Rightarrow> error + QueuedMail list" where
  "release_mails globals schedule speakers_concerned =
     (case speakers_concerned of
        PyList speakers_list \<Rightarrow>
          (if speakers_list = [] then Inr []
           else reading globals [''override'', ''tzoverride'', ''get_template''] (Inl TypeError))
      | PyDict d \<Rightarrow>
          (if d = [] then Inr []
           else reading globals
                  [''override'', ''tzoverride'', ''get_template'', ''template_context_from_event'']
                  (Inr (map (\<lambda>(speaker, n).
                               \<lparr>mail_user = speaker, mail_event = event_pk (event schedule),
                                notifications = n\<rparr>) d))))"

text \<open>
  \<^verbatim>\<open>create_release_notifications(schedule, commit)\<close>, in the namespace of
  \<^verbatim>\<open>actions.py\<close>. It starts with
  \<^verbatim>\<open>from pretalx.schedule.selectors import get_speakers_with_changed_slots\<close>, which raises
  \<^verbatim>\<open>ImportError\<close> unless \<^verbatim>\<open>selectors.py\<close> binds that name; a module that binds it is
  taken to bind it to \<^verbatim>\<open>speakers_with_changed_slots\<close>. With \<^verbatim>\<open>commit\<close> the mails are
  stored, which reads \<^verbatim>\<open>QueuedMail\<close>.
\<close>

definition create_release_notifications ::
  "namespace \<Rightarrow> namespace \<Rightarrow> (slot_key list \<Rightarrow> slot_key list) \<Rightarrow> bool \<Rightarrow> Database
     \<Rightarrow> Schedule \<Rightarrow> bool \<Rightarrow> error + (QueuedMail list \<times> Database)" where
  "create_release_notifications globals selectors iter nulls_first db schedule commit =
     (if ''get_speakers_with_changed_slots'' \<notin> set selectors
      then Inl (ImportError ''get_speakers_with_changed_slots'')
      else case speakers_with_changed_slots selectors iter nulls_first db schedule of
             Inl e \<Rightarrow> Inl e
           | Inr speakers_concerned \<Rightarrow>
               (case release_mails globals schedule speakers_concerned of
                  Inl e \<Rightarrow> Inl e
                | Inr mails \<Rightarrow>
                    if commit
                    then reading globals [''QueuedMail'']
                           (Inr (mails, db\<lparr>queued_mails := queued_mails db @ mails\<rparr>))
                    else Inr (mails, db)))"

section \<open>Freeze and unfreeze\<close>

text \<open>
  \<^verbatim>\<open>@transaction.atomic\<close>: the body runs on the database and either returns a value
  and the new database, or raises, and then the database is what it was at entry.
\<close>

definition atomic ::
  "(Database \<Rightarrow> error + ('a \<times> Database)) \<Rightarrow> Database \<Rightarrow> (error + 'a) \<times> Database" where
  "atomic body db = (case body db of Inl e \<Rightarrow> (Inl e, db) | Inr (r, db') \<Rightarrow> (Inr r, db'))"

text \<open>The truth value Python gives \<^verbatim>\<open>schedule.version\<close>: false for \<^verbatim>\<open>None\<close> and for \<^verbatim>\<open>''\<close>.\<close>

definition truthy :: "string option \<Rightarrow> bool" where
  "truthy v = (case v of None \<Rightarrow> False | Some s \<Rightarrow> s \<noteq> [])"

text \<open>The text an f-string puts for \<^verbatim>\<open>{schedule.version}\<close>.\<close>

definition format_version :: "string option \<Rightarrow> string" where
  "format_version v = (case v of None \<Rightarrow> ''None'' | Some s \<Rightarrow> s)"

text \<open>
  \<^verbatim>\<open>schedule.save(update_fields=['published', 'version'])\<close>: an \<^verbatim>\<open>UPDATE\<close> of the row
  with the schedule's primary key, under \<^verbatim>\<open>unique_together = (('event', 'version'),)\<close>.
\<close>

definition save_published_version :: "Database \<Rightarrow> Schedule \<Rightarrow> error + Database" where
  "save_published_version db schedule =
     (if \<not> list_ex (\<lambda>s. pk s = pk schedule) (schedules db) then Inl DatabaseError
      else if list_ex (\<lambda>s. pk s \<noteq> pk schedule \<and> event_pk (event s) = event_pk (event schedule)
                            \<and> version s = version schedule) (schedules db)
      then Inl IntegrityError
      else Inr (db\<lparr>schedules :=
                  map (\<lambda>s. if pk s = pk schedule
                           then s\<lparr>published := published schedule, version := version schedule\<rparr>
                           else s) (schedules db)\<rparr>))"

text \<open>\<^verbatim>\<open>schedule.log_action(action, person=user, orga=True)\<close>.\<close>

definition log_action :: "Database \<Rightarrow> Schedule \<Rightarrow> string \<Rightarrow> nat \<Rightarrow> Database" where
  "log_action db schedule act person =
     db\<lparr>action_log := action_log db @ [(act, pk schedule, person)]\<rparr>"

text \<open>\<^verbatim>\<open>Schedule.objects.create(event=...)\<close>: a new row, neither versioned nor published.\<close>

definition create_schedule :: "Database \<Rightarrow> Event \<Rightarrow> Schedule \<times> Database" where
  "create_schedule db ev =
     (let wip_schedule = \<lparr>pk = next_schedule_pk db, event = ev, version = None, published = None\<rparr>
      in (wip_schedule,
          db\<lparr>schedules := schedules db @ [wip_schedule],
             next_schedule_pk := Suc (next_schedule_pk db)\<rparr>))"

text \<open>
  The loop that copies talks into \<^verbatim>\<open>wip_schedule\<close> and \<^verbatim>\<open>TalkSlot.objects.bulk_create\<close>,
  which gives the copies their primary keys.
\<close>

definition copy_talks :: "Database \<Rightarrow> TalkSlot list \<Rightarrow> Schedule \<Rightarrow> Database" where
  "copy_talks db ts wip_schedule =
     (let new_talks = map (\<lambda>(new_pk, talk). copy_to_schedule talk wip_schedule new_pk)
                        (enumerate (next_slot_pk db) ts)
      in db\<lparr>talkslots := talkslots db @ new_talks,
            next_slot_pk := next_slot_pk db + length ts\<rparr>)"

text \<open>The two \<^verbatim>\<open>update\<close> statements under \<^verbatim>\<open># Set visibility\<close>.\<close>

definition set_visible :: "Database \<Rightarrow> Schedule \<Rightarrow> Database" where
  "set_visible db schedule =
     db\<lparr>talkslots :=
          map (\<lambda>talk. if schedule_id talk = pk schedule \<and> start talk \<noteq> None
                         \<and> state (submission talk) = CONFIRMED \<and> is_visible talk = False
                      then talk\<lparr>is_visible := True\<rparr> else talk) (talkslots db)\<rparr>"

definition set_invisible :: "Database \<Rightarrow> Schedule \<Rightarrow> Database" where
  "set_invisible db schedule =
     db\<lparr>talkslots :=
          map (\<lambda>talk. if schedule_id talk = pk schedule \<and> is_visible talk = True
                         \<and> \<not> (start talk \<noteq> None \<and> state (submission talk) = CONFIRMED)
                      then talk\<lparr>is_visible := False\<rparr> else talk) (talkslots db)\<rparr>"

text \<open>
  The body of \<^verbatim>\<open>freeze_schedule(schedule, name, user, notify_speakers)\<close>, in the
  namespace of \<^verbatim>\<open>actions.py\<close>; \<open>now\<close> is the value of \<^verbatim>\<open>now()\<close>. After the three
  checks the body reads, in this order, \<^verbatim>\<open>now\<close>, \<^verbatim>\<open>Schedule\<close> (to create the new
  draft), \<^verbatim>\<open>SubmissionStates\<close> (to set the visibility), \<^verbatim>\<open>TalkSlot\<close> (to store the
  copies), \<^verbatim>\<open>create_release_notifications\<close>, \<^verbatim>\<open>suppress\<close> and
  \<^verbatim>\<open>export_schedule_html\<close>. Deleting the cached \<^verbatim>\<open>wip_schedule\<close> and
  \<^verbatim>\<open>current_schedule\<close> of the event has no effect here, where nothing is cached.
  \<^verbatim>\<open>export_schedule_html.apply_async\<close> sends a task for the event.
\<close>

definition freeze_schedule_body ::
  "namespace \<Rightarrow> namespace \<Rightarrow> (slot_key list \<Rightarrow> slot_key list) \<Rightarrow> bool \<Rightarrow> int \<Rightarrow> Schedule
     \<Rightarrow> string \<Rightarrow> nat \<Rightarrow> bool \<Rightarrow> Database \<Rightarrow> error + ((Schedule \<times> Schedule) \<times> Database)" where
  "freeze_schedule_body globals selectors iter nulls_first now schedule name user notify_speakers db =
     (if name \<in> set [''wip'', ''latest'']
      then Inl (Exception (''Cannot use reserved name '' @ [CHR 0x22] @ name @ [CHR 0x22]
                  @ '' for schedule version.''))
      else if truthy (version schedule)
      then Inl (Exception (''Cannot freeze schedule version: already versioned as '' @ [CHR 0x22]
                  @ format_version (version schedule) @ [CHR 0x22] @ ''.''))
      else if name = []
      then Inl (Exception ''Cannot create schedule version without a version name.'')
      else reading globals [''now'']
        (let schedule1 = schedule\<lparr>published := Some now, version := Some name\<rparr>
         in case save_published_version db schedule1 of
              Inl e \<Rightarrow> Inl e
            | Inr db1 \<Rightarrow>
                (let db2 = log_action db1 schedule1 ''pretalx.schedule.release'' user
                 in reading globals [''Schedule'']
                   (let (wip_schedule, db3) = create_schedule db2 (event schedule1)
                    in reading globals [''SubmissionStates'']
                      (let db4 = set_visible db3 schedule1;
                           db5 = set_invisible db4 schedule1
                       in reading globals [''TalkSlot'']
                         (let db6 = copy_talks db5 (talks db5 schedule1) wip_schedule
                          in case (if notify_speakers
                                   then reading globals [''create_release_notifications'']
                                          (create_release_notifications globals selectors iter
                                             nulls_first db6 schedule1 True)
                                   else Inr ([], db6)) of
                               Inl e \<Rightarrow> Inl e
                             | Inr (mails, db7) \<Rightarrow>
                                 reading globals [''suppress'']
                                   (if export_html_on_schedule_release (event schedule1)
                                    then reading globals [''export_schedule_html'']
                                           (Inr ((schedule1, wip_schedule),
                                                 db7\<lparr>export_tasks := export_tasks db7
                                                        @ [event_pk (event schedule1)]\<rparr>))
                                    else Inr ((schedule1, wip_schedule), db7))))))))"

text \<open>
  \<^verbatim>\<open>freeze_schedule\<close> is the body under \<^verbatim>\<open>@transaction.atomic\<close>. An exception leaves
  the database as it was; the assignments to \<^verbatim>\<open>schedule.published\<close> and
  \<^verbatim>\<open>schedule.version\<close> that the body made before it stay on the caller's object.
\<close>

definition freeze_schedule ::
  "namespace \<Rightarrow> namespace \<Rightarrow> (slot_key list \<Rightarrow> slot_key list) \<Rightarrow> bool \<Rightarrow> int \<Rightarrow> Schedule
     \<Rightarrow> string \<Rightarrow> nat \<Rightarrow> bool \<Rightarrow> Database \<Rightarrow> (error + (Schedule \<times> Schedule)) \<times> Database" where
  "freeze_schedule globals selectors iter nulls_first now schedule name user notify_speakers =
     atomic (freeze_schedule_body globals selectors iter nulls_first now schedule name user
               notify_speakers)"

text \<open>
  Modelled from the spec: the property \<^verbatim>\<open>Event.wip_schedule\<close> (pretalx.event.models) is
  not part of the sources. The spec: the working draft is the single schedule of the
  event whose version is null. The property is cached: \<^verbatim>\<open>unfreeze\<close> reads it before it
  creates the new draft and gets the same object each time.
\<close>

definition wip_schedule_of :: "Database \<Rightarrow> Event \<Rightarrow> Schedule option" where
  "wip_schedule_of db ev =
     first (filter (\<lambda>s. event_pk (event s) = event_pk ev \<and> version s = None) (schedules db))"

text \<open>
  \<^verbatim>\<open>QuerySet.union\<close> is SQL's \<^verbatim>\<open>UNION\<close>: the rows of both queries, equal rows once.
\<close>

definition union_qs :: "'a list \<Rightarrow> 'a list \<Rightarrow> 'a list" where
  "union_qs xs ys = remdups (xs @ ys)"

text \<open>
  The body of \<^verbatim>\<open>Schedule.unfreeze(self, user)\<close>. An event without a working draft is
  outside the spec's data model; the body fails there.
\<close>

definition unfreeze_body ::
  "Schedule \<Rightarrow> nat option \<Rightarrow> Database \<Rightarrow> error + ((Schedule \<times> Schedule) \<times> Database)" where
  "unfreeze_body self user db =
     (if \<not> truthy (version self)
      then Inl (Exception ''Cannot unfreeze schedule version: not released yet.'')
      else case wip_schedule_of db (event self) of
             None \<Rightarrow> Inl DoesNotExist
           | Some old_wip \<Rightarrow>
               (let submission_ids = map (\<lambda>talk. sub_pk (submission talk)) (talks db self);
                    ts = union_qs
                           (filter (\<lambda>talk. sub_pk (submission talk) \<notin> set submission_ids)
                              (talks db old_wip))
                           (talks db self);
                    (wip_schedule, db1) = create_schedule db (event self);
                    db2 = copy_talks db1 ts wip_schedule;
                    db3 = db2\<lparr>talkslots :=
                                filter (\<lambda>talk. schedule_id talk \<noteq> pk old_wip) (talkslots db2)\<rparr>;
                    db4 = db3\<lparr>schedules := filter (\<lambda>s. pk s \<noteq> pk old_wip) (schedules db3)\<rparr>
                in Inr ((self, wip_schedule), db4)))"

definition unfreeze ::
  "Schedule \<Rightarrow> nat option \<Rightarrow> Database \<Rightarrow> (error + (Schedule \<times> Schedule)) \<times> Database" where
  "unfreeze self user = atomic (unfreeze_body self user)"

section \<open>Auxiliary notions\<close>

text \<open>A slot with a room and a start, as every slot of \<open>scheduled_talks\<close> is.\<close>

definition is_scheduled :: "TalkSlot \<Rightarrow> bool" where
  "is_scheduled talk \<longleftrightarrow> room talk \<noteq> None \<and> start talk \<noteq> None"

text \<open>What one classification may return: slots and pairs of the submission that are unmatched.\<close>

definition sound_classification ::
  "TalkSlot list \<Rightarrow> TalkSlot list \<Rightarrow> string \<Rightarrow> nat \<Rightarrow> classification \<Rightarrow> bool" where
  "sound_classification old new z p t \<longleftrightarrow>
     (case t of (n, c, m) \<Rightarrow>
        set n \<subseteq> set (unmatched p new old) \<and> set c \<subseteq> set (unmatched p old new)
      \<and> (\<forall>mv\<in>set m. \<exists>a\<in>set (unmatched p old new). \<exists>b\<in>set (unmatched p new old).
             moved_entry z a b = Inr mv))"

text \<open>The entries of a change-set are unmatched slots and pairs of unmatched slots.\<close>

definition sound_changes :: "TalkSlot list \<Rightarrow> TalkSlot list \<Rightarrow> string \<Rightarrow> ChangeSet \<Rightarrow> bool" where
  "sound_changes old new z r \<longleftrightarrow>
     (\<forall>s\<in>set (new_talks r). s \<in> set new \<and> slot_key s \<notin> set (map slot_key old))
   \<and> (\<forall>s\<in>set (canceled_talks r). s \<in> set old \<and> slot_key s \<notin> set (map slot_key new))
   \<and> (\<forall>mv\<in>set (moved_talks r). \<exists>a\<in>set old. \<exists>b\<in>set new.
          moved_entry z a b = Inr mv
        \<and> slot_key a \<notin> set (map slot_key new) \<and> slot_key b \<notin> set (map slot_key old))"

text \<open>
  A list of changes \<open>(key, item)\<close> applied in order to a \<^verbatim>\<open>defaultdict\<close>: what the nested
  loops of \<^verbatim>\<open>speakers_with_changed_slots\<close> do, one change for each talk and speaker.
\<close>

definition apply_events :: "'v \<Rightarrow> ('x \<Rightarrow> 'v \<Rightarrow> 'v) \<Rightarrow> ('k \<times> 'v) list \<Rightarrow> ('k \<times> 'x) list \<Rightarrow> ('k \<times> 'v) list" where
  "apply_events dflt f d es = foldl (\<lambda>d (k, x). defaultdict_update dflt k (f x) d) d es"

text \<open>A result that is the raising of a \<^verbatim>\<open>ValidationError\<close>.\<close>

definition raises_validation_error :: "error + 'a \<Rightarrow> bool" where
  "raises_validation_error r = (case r of Inl (ValidationError msg) \<Rightarrow> True | _ \<Rightarrow> False)"



section \<open>An example event\<close>

text \<open>
  The scenarios of the specification in one event: version \<open>v1\<close> (schedule 1) and the
  working draft after it (schedule 2). Submission 1 keeps its slot, submission 2 changes
  room, submission 3 is new, submission 4 loses its second slot, submission 5 moves and
  gains a slot, submission 6 is dropped from the draft.
\<close>

definition example_event :: Event where
  "example_event = \<lparr>event_pk = 1, timezone = ''UTC'', export_html_on_schedule_release = False\<rparr>"

definition example_room :: "nat \<Rightarrow> Room" where
  "example_room n =
     \<lparr>room_pk = n,
      room_name = (if n = 1 then ''Room 1'' else if n = 2 then ''Room 2'' else ''Room 3''),
      speaker_info = ''Stage''\<rparr>"

definition example_submission :: "nat \<Rightarrow> Submission" where
  "example_submission n = \<lparr>sub_pk = n, state = CONFIRMED, speakers = [10 + n]\<rparr>"

definition example_slot :: "nat \<Rightarrow> nat \<Rightarrow> nat \<Rightarrow> nat \<Rightarrow> int \<Rightarrow> TalkSlot" where
  "example_slot n sched sub r t =
     \<lparr>slot_pk = n, schedule_id = sched, submission = example_submission sub,
      room = Some (example_room r), start = Some t, end_time = Some (t + 1), is_visible = True\<rparr>"

definition schedule_v1 :: Schedule where
  "schedule_v1 = \<lparr>pk = 1, event = example_event, version = Some ''v1'', published = Some 100\<rparr>"

definition schedule_wip :: Schedule where
  "schedule_wip = \<lparr>pk = 2, event = example_event, version = None, published = None\<rparr>"

definition example_db :: Database where
  "example_db =
     \<lparr>schedules = [schedule_v1, schedule_wip],
      talkslots =
        [example_slot 1 1 1 1 10, example_slot 2 1 2 2 11, example_slot 3 1 4 1 9,
         example_slot 4 1 4 1 14, example_slot 5 1 5 2 15, example_slot 6 1 6 3 18,
         example_slot 7 2 1 1 10, example_slot 8 2 2 3 11, example_slot 9 2 3 1 12,
         example_slot 10 2 4 1 9, example_slot 11 2 5 2 16, example_slot 12 2 5 3 17],
      action_log = [], queued_mails = [], export_tasks = [],
      next_schedule_pk = 3, next_slot_pk = 13\<rparr>"

text \<open>The same event with two released versions and the working draft, without slots.\<close>

definition schedule_v2 :: Schedule where
  "schedule_v2 = \<lparr>pk = 3, event = example_event, version = Some ''v2'', published = Some 200\<rparr>"

definition example_versions :: Database where
  "example_versions =
     \<lparr>schedules = [schedule_v1, schedule_wip, schedule_v2], talkslots = [],
      action_log = [], queued_mails = [], export_tasks = [],
      next_schedule_pk = 4, next_slot_pk = 1\<rparr>"

text \<open>The moved entry of the example for a submission that goes from a slot to another.\<close>

definition example_moved :: "nat \<Rightarrow> int \<Rightarrow> int \<Rightarrow> nat \<Rightarrow> nat \<Rightarrow> MovedTalk" where
  "example_moved sub t t' r r' =
     \<lparr>moved_submission = example_submission sub,
      old_start = astimezone t ''UTC'', new_start = astimezone t' ''UTC'',
      old_room = room_name (example_room r), new_room = room_name (example_room r'),
      new_info = ''Stage''\<rparr>"

section \<open>Properties of the diff of one submission\<close>

lemma moved_entry_Inr:
  "is_scheduled a \<Longrightarrow> is_scheduled b \<Longrightarrow> \<exists>m. moved_entry z a b = Inr m"
  by (auto simp: moved_entry_def is_scheduled_def split: option.splits)

lemma moved_loop_Inr:
  "\<forall>p\<in>set ps. is_scheduled (fst p) \<and> is_scheduled (snd p) \<Longrightarrow>
   \<exists>ms. moved_loop z ps acc = Inr ms \<and> length ms = length acc + length ps \<and>
     map Inr ms = map Inr acc @ map (\<lambda>p. moved_entry z (fst p) (snd p)) ps"
proof (induction ps arbitrary: acc)
  case Nil
  show ?case by simp
next
  case (Cons p ps)
  then obtain m where m: "moved_entry z (fst p) (snd p) = Inr m"
    using moved_entry_Inr by (metis list.set_intros(1))
  from Cons.IH[of "acc @ [m]"] Cons.prems m show ?case by auto
qed

lemma scheduled_talks_is_scheduled: "t \<in> set (scheduled_talks db s) \<Longrightarrow> is_scheduled t"
  by (auto simp: scheduled_talks_def is_scheduled_def)

lemma unmatched_subset: "set (unmatched p xs ys) \<subseteq> set xs"
  by (auto simp: unmatched_def Let_def)

lemma fst_slot_key: "fst (slot_key t) = sub_pk (submission t)"
  by (simp add: slot_key_def)

lemma unmatched_char:
  "unmatched p xs ys =
     filter (\<lambda>s. sub_pk (submission s) = p \<and> slot_key s \<notin> set (map slot_key ys)) xs"
proof -
  have "(\<not> list_ex (\<lambda>other_slot. is_same_slot s other_slot)
            (filter (\<lambda>slot. sub_pk (submission slot) = p) ys))
        = (slot_key s \<notin> set (map slot_key ys))" if "sub_pk (submission s) = p" for s
  proof -
    have "slot_key s = slot_key t \<Longrightarrow> sub_pk (submission t) = p" for t
      using fst_slot_key[of s] fst_slot_key[of t] that by simp
    then show ?thesis
      by (auto simp: list_ex_iff is_same_slot_def)
  qed
  then show ?thesis
    unfolding unmatched_def Let_def filter_filter
    by (intro filter_cong) auto
qed

lemma handle_submission_move_unmatched:
  "handle_submission_move p old new z =
     (let A = unmatched p old new; B = unmatched p new old;
          d = int (length A) - int (length B)
      in case moved_loop z (zip (if d > 0 then drop (nat d) A else A)
                               (if d > 0 then B else if d < 0 then drop (nat (- d)) B else B)) [] of
           Inl e \<Rightarrow> Inl e
         | Inr moved \<Rightarrow>
             Inr (if d > 0 then [] else if d < 0 then take (nat (- d)) B else [],
                  if d > 0 then take (nat d) A else [], moved))"
  by (auto simp: handle_submission_move_def unmatched_def Let_def split: sum.splits)

lemma handle_submission_move_scheduled:
  fixes p :: nat and old new :: "TalkSlot list"
  assumes "\<forall>t\<in>set old. is_scheduled t" "\<forall>t\<in>set new. is_scheduled t"
  defines "A \<equiv> unmatched p old new" and "B \<equiv> unmatched p new old"
  shows "\<exists>moved. handle_submission_move p old new z =
            Inr (take (length B - length A) B, take (length A - length B) A, moved)
          \<and> map Inr moved = map (\<lambda>(a, b). moved_entry z a b)
               (zip (drop (length A - length B) A) (drop (length B - length A) B))
          \<and> length moved = min (length A) (length B)"
proof -
  let ?A' = "drop (length A - length B) A" and ?B' = "drop (length B - length A) B"
  have "\<forall>q\<in>set (zip ?A' ?B'). is_scheduled (fst q) \<and> is_scheduled (snd q)"
  proof
    fix q assume "q \<in> set (zip ?A' ?B')"
    then have "fst q \<in> set ?A'" "snd q \<in> set ?B'"
      by (metis prod.collapse set_zip_leftD, metis prod.collapse set_zip_rightD)
    then have "fst q \<in> set old" "snd q \<in> set new"
      using unmatched_subset[of p old new] unmatched_subset[of p new old]
      by (auto simp: A_def B_def dest: in_set_dropD)
    with assms(1,2) show "is_scheduled (fst q) \<and> is_scheduled (snd q)" by simp
  qed
  from moved_loop_Inr[OF this, of z "[]"]
  obtain ms where ms: "moved_loop z (zip ?A' ?B') [] = Inr ms"
    "length ms = length (zip ?A' ?B')"
    "map Inr ms = map (\<lambda>p. moved_entry z (fst p) (snd p)) (zip ?A' ?B')"
    by auto
  have *: "(\<lambda>p. moved_entry z (fst p) (snd p)) = (\<lambda>(a, b). moved_entry z a b)"
    by (auto simp: fun_eq_iff)
  consider "length A > length B" | "length A < length B" | "length A = length B" by linarith
  then have "handle_submission_move p old new z =
            Inr (take (length B - length A) B, take (length A - length B) A, ms)"
  proof cases
    case 1
    then have "nat (int (length A) - int (length B)) = length A - length B" by simp
    with 1 ms(1) show ?thesis
      by (simp add: handle_submission_move_unmatched Let_def A_def[symmetric] B_def[symmetric])
  next
    case 2
    then have "nat (- (int (length A) - int (length B))) = length B - length A" by simp
    with 2 ms(1) show ?thesis
      by (simp add: handle_submission_move_unmatched Let_def A_def[symmetric] B_def[symmetric])
  next
    case 3
    with ms(1) show ?thesis
      by (simp add: handle_submission_move_unmatched Let_def A_def[symmetric] B_def[symmetric])
  qed
  with ms(2,3) show ?thesis by (auto simp: * min_def)
qed

lemma example_old_slots:
  "scheduled_talks example_db schedule_v1 =
     [example_slot 1 1 1 1 10, example_slot 2 1 2 2 11, example_slot 3 1 4 1 9,
      example_slot 4 1 4 1 14, example_slot 5 1 5 2 15, example_slot 6 1 6 3 18]"
  by (simp add: example_db_def schedule_v1_def example_slot_def scheduled_talks_def talks_def
      example_submission_def)

lemma example_new_slots:
  "scheduled_talks example_db schedule_wip =
     [example_slot 7 2 1 1 10, example_slot 8 2 2 3 11, example_slot 9 2 3 1 12,
      example_slot 10 2 4 1 9, example_slot 11 2 5 2 16, example_slot 12 2 5 3 17]"
  by (simp add: example_db_def schedule_wip_def example_slot_def scheduled_talks_def talks_def
      example_submission_def)

lemma slot_key_example_slot: "slot_key (example_slot n s sub r t) = (sub, Some r, Some t)"
  by (simp add: slot_key_def example_slot_def example_submission_def example_room_def)

lemma sub_pk_example_slot: "sub_pk (submission (example_slot n s sub r t)) = sub"
  by (simp add: example_slot_def example_submission_def)

text \<open>
  C1. Move matching, on the scheduled slots of the predecessor and of the schedule:
  \<open>A\<close> and \<open>B\<close> are the old and the new slots of the submission without those that
  have an exact \<open>(submission, room, start)\<close> counterpart on the other side. The call
  returns; with more old than new slots the first \<open>length A - length B\<close> old slots are
  canceled and the remaining old slots pair position by position with all of \<open>B\<close>; with
  more new than old slots the first \<open>length B - length A\<close> new slots are new and the
  remaining new slots pair with all of \<open>A\<close>; with as many, all of \<open>A\<close> pairs with all of
  \<open>B\<close>. Each pair gives the moved entry built from it.
\<close>

theorem handle_submission_move_classification:
  fixes db :: Database and previous schedule :: Schedule and submission_pk :: nat
    and z :: string
  defines "old_slots \<equiv> scheduled_talks db previous"
    and "new_slots \<equiv> scheduled_talks db schedule"
  defines "A \<equiv> filter (\<lambda>slot. sub_pk (submission slot) = submission_pk
                               \<and> slot_key slot \<notin> set (map slot_key new_slots)) old_slots"
    and "B \<equiv> filter (\<lambda>slot. sub_pk (submission slot) = submission_pk
                               \<and> slot_key slot \<notin> set (map slot_key old_slots)) new_slots"
  shows "\<exists>new canceled moved.
           handle_submission_move submission_pk old_slots new_slots z = Inr (new, canceled, moved)
         \<and> (length A > length B \<longrightarrow>
              canceled = take (length A - length B) A \<and> new = []
            \<and> length (drop (length A - length B) A) = length B
            \<and> map Inr moved = map (\<lambda>(old_slot, new_slot). moved_entry z old_slot new_slot)
                                (zip (drop (length A - length B) A) B))
         \<and> (length A < length B \<longrightarrow>
              new = take (length B - length A) B \<and> canceled = []
            \<and> length (drop (length B - length A) B) = length A
            \<and> map Inr moved = map (\<lambda>(old_slot, new_slot). moved_entry z old_slot new_slot)
                                (zip A (drop (length B - length A) B)))
         \<and> (length A = length B \<longrightarrow>
              new = [] \<and> canceled = []
            \<and> map Inr moved = map (\<lambda>(old_slot, new_slot). moved_entry z old_slot new_slot)
                                (zip A B))"
proof -
  have A: "A = unmatched submission_pk old_slots new_slots"
    and B: "B = unmatched submission_pk new_slots old_slots"
    by (simp_all add: A_def B_def unmatched_char)
  have "\<forall>t\<in>set old_slots. is_scheduled t" "\<forall>t\<in>set new_slots. is_scheduled t"
    by (simp_all add: old_slots_def new_slots_def scheduled_talks_is_scheduled)
  from handle_submission_move_scheduled[OF this, of submission_pk z]
  obtain moved where m:
    "handle_submission_move submission_pk old_slots new_slots z =
       Inr (take (length B - length A) B, take (length A - length B) A, moved)"
    "map Inr moved = map (\<lambda>(a, b). moved_entry z a b)
               (zip (drop (length A - length B) A) (drop (length B - length A) B))"
    unfolding A B by blast
  show ?thesis
    unfolding m(1) using m(2) by auto
qed

text \<open>
  In the example, submission 4 has one old slot too many, which is canceled, and
  submission 5 one new slot too many: its first unmatched new slot is new and its old
  slot pairs with the second.
\<close>

theorem handle_submission_move_classification_witness:
  "handle_submission_move 4 (scheduled_talks example_db schedule_v1)
      (scheduled_talks example_db schedule_wip) ''UTC''
     = Inr ([], [example_slot 4 1 4 1 14], [])
   \<and> (\<exists>moved. handle_submission_move 5 (scheduled_talks example_db schedule_v1)
          (scheduled_talks example_db schedule_wip) ''UTC''
         = Inr ([example_slot 11 2 5 2 16], [], moved)
        \<and> map Inr moved
            = [moved_entry ''UTC'' (example_slot 5 1 5 2 15) (example_slot 12 2 5 3 17)])"
  using handle_submission_move_classification[of 4 example_db schedule_v1 schedule_wip "''UTC''"]
    handle_submission_move_classification[of 5 example_db schedule_v1 schedule_wip "''UTC''"]
  by (auto simp add: example_old_slots example_new_slots slot_key_example_slot
      sub_pk_example_slot)

text \<open>
  C5. Conservation: move matching on the scheduled slots of two schedules returns, and
  the unmatched old slots are as many as the canceled and the moved results together,
  the unmatched new slots as many as the new and the moved results together.
\<close>

theorem handle_submission_move_conservation:
  fixes db :: Database and previous schedule :: Schedule and submission_pk :: nat
    and z :: string
  defines "old_slots \<equiv> scheduled_talks db previous"
    and "new_slots \<equiv> scheduled_talks db schedule"
  shows "\<exists>new canceled moved.
           handle_submission_move submission_pk old_slots new_slots z = Inr (new, canceled, moved)
         \<and> length (unmatched submission_pk old_slots new_slots)
             = length canceled + length moved
         \<and> length (unmatched submission_pk new_slots old_slots)
             = length new + length moved"
proof -
  have "\<forall>t\<in>set old_slots. is_scheduled t" "\<forall>t\<in>set new_slots. is_scheduled t"
    by (simp_all add: old_slots_def new_slots_def scheduled_talks_is_scheduled)
  from handle_submission_move_scheduled[OF this, of submission_pk z]
  obtain moved where m:
    "handle_submission_move submission_pk old_slots new_slots z =
       Inr (take (length (unmatched submission_pk new_slots old_slots)
                   - length (unmatched submission_pk old_slots new_slots))
              (unmatched submission_pk new_slots old_slots),
            take (length (unmatched submission_pk old_slots new_slots)
                   - length (unmatched submission_pk new_slots old_slots))
              (unmatched submission_pk old_slots new_slots),
            moved)"
    "length moved = min (length (unmatched submission_pk old_slots new_slots))
                        (length (unmatched submission_pk new_slots old_slots))"
    by blast
  show ?thesis
    unfolding m(1) using m(2) by simp arith
qed

theorem handle_submission_move_conservation_witness:
  "\<exists>new canceled moved.
     handle_submission_move 5 (scheduled_talks example_db schedule_v1)
       (scheduled_talks example_db schedule_wip) ''UTC'' = Inr (new, canceled, moved)
   \<and> 1 = length canceled + length moved \<and> 2 = length new + length moved"
  using handle_submission_move_conservation[of 5 example_db schedule_v1 schedule_wip "''UTC''"]
  by (auto simp add: unmatched_char example_old_slots example_new_slots slot_key_example_slot
      sub_pk_example_slot)

section \<open>The predecessor and the first release\<close>

lemma first_None: "first xs = None \<longleftrightarrow> xs = []"
  by (simp add: first_def split: list.splits)

lemma first_sort_key:
  assumes "first (sort_key k xs) = Some r"
  shows "r \<in> set xs \<and> (\<forall>x\<in>set xs. k r \<le> k x)"
proof -
  from assms obtain rest where eq: "sort_key k xs = r # rest"
    by (auto simp: first_def split: list.splits)
  have "sorted (map k (sort_key k xs))" by (rule sorted_sort_key)
  with eq have "\<forall>x\<in>set (r # rest). k r \<le> k x" by auto
  moreover have "set (r # rest) = set xs" using eq set_sort[of k xs] by simp
  ultimately show ?thesis by auto
qed

lemma first_sort_key_None: "first (sort_key k xs) = None \<longleftrightarrow> xs = []"
  using set_sort[of k xs] by (auto simp: first_None simp del: set_sort)

lemma compare_create:
  "previous_schedule nulls_first db schedule = None \<Longrightarrow>
   compare_schedule_with_predecessor iter nulls_first db schedule =
     Inr \<lparr>count = 0, action = ''create'', new_talks = [], canceled_talks = [], moved_talks = []\<rparr>"
  by (simp add: compare_schedule_with_predecessor_def)

text \<open>
  C7. Comparing a schedule that has no predecessor returns the change-set with action
  \<open>create\<close>, count 0 and empty lists of new, canceled and moved talks, whatever the
  schedule and the database contain and in whatever order sets are iterated.
\<close>

theorem compare_without_predecessor:
  assumes "previous_schedule nulls_first db schedule = None"
  shows "compare_schedule_with_predecessor iter nulls_first db schedule =
           Inr \<lparr>count = 0, action = ''create'', new_talks = [], canceled_talks = [],
                moved_talks = []\<rparr>"
  using assms by (simp add: compare_schedule_with_predecessor_def)

text \<open>In the example, version \<open>v1\<close> is the first release; its slots play no part.\<close>

theorem compare_without_predecessor_witness:
  "previous_schedule False example_db schedule_v1 = None
   \<and> compare_schedule_with_predecessor rev False example_db schedule_v1 =
       Inr \<lparr>count = 0, action = ''create'', new_talks = [], canceled_talks = [],
            moved_talks = []\<rparr>"
proof -
  have none: "previous_schedule False example_db schedule_v1 = None"
    by (simp add: previous_schedule_def example_db_def schedule_v1_def schedule_wip_def
        first_def)
  from compare_without_predecessor[OF none, of rev] none show ?thesis by simp
qed

text \<open>
  C10. \<open>others\<close> are the schedules of the same event other than the schedule itself.
  For a published schedule the predecessor is one of the others published strictly
  before it, and none of those is published later; there is none exactly when no other
  schedule is published strictly before it. For an unpublished schedule that is the
  only unpublished one of its event (the working draft), the predecessor is one of the
  others and none of them is published later; there is none exactly when there is no
  other schedule. Without a predecessor the comparison returns the action \<open>create\<close>.
\<close>

theorem previous_schedule_resolution:
  fixes db :: Database and self :: Schedule and nulls_first :: bool
  defines "others \<equiv> {s \<in> set (schedules db).
                        event_pk (event s) = event_pk (event self) \<and> pk s \<noteq> pk self}"
  shows "(\<forall>p. published self = Some p \<longrightarrow>
            (case previous_schedule nulls_first db self of
               None \<Rightarrow> \<not> (\<exists>s\<in>others. \<exists>q. published s = Some q \<and> q < p)
             | Some r \<Rightarrow> r \<in> others \<and> (\<exists>q. published r = Some q \<and> q < p
                  \<and> (\<forall>s\<in>others. \<forall>q'. published s = Some q' \<and> q' < p \<longrightarrow> q' \<le> q))))
       \<and> (published self = None \<and> (\<forall>s\<in>others. published s \<noteq> None) \<longrightarrow>
            (case previous_schedule nulls_first db self of
               None \<Rightarrow> others = {}
             | Some r \<Rightarrow> r \<in> others \<and> (\<exists>q. published r = Some q
                  \<and> (\<forall>s\<in>others. \<forall>q'. published s = Some q' \<longrightarrow> q' \<le> q))))
       \<and> (previous_schedule nulls_first db self = None \<longrightarrow>
            (\<forall>iter. \<exists>changes.
                compare_schedule_with_predecessor iter nulls_first db self = Inr changes
              \<and> action changes = ''create''))"
proof (intro conjI allI impI)
  fix p assume p: "published self = Some p"
  let ?qs = "filter (\<lambda>s. case published s of None \<Rightarrow> False | Some q \<Rightarrow> q < p)
              (filter (\<lambda>s. pk s \<noteq> pk self)
                (filter (\<lambda>s. event_pk (event s) = event_pk (event self)) (schedules db)))"
  have prev: "previous_schedule nulls_first db self
                = first (sort_key (minus_published nulls_first) ?qs)"
    by (simp add: previous_schedule_def p)
  have set_qs: "set ?qs = {s \<in> others. \<exists>q. published s = Some q \<and> q < p}"
    by (auto simp: others_def split: option.splits)
  show "case previous_schedule nulls_first db self of
               None \<Rightarrow> \<not> (\<exists>s\<in>others. \<exists>q. published s = Some q \<and> q < p)
             | Some r \<Rightarrow> r \<in> others \<and> (\<exists>q. published r = Some q \<and> q < p
                  \<and> (\<forall>s\<in>others. \<forall>q'. published s = Some q' \<and> q' < p \<longrightarrow> q' \<le> q))"
  proof (cases "previous_schedule nulls_first db self")
    case None
    then have "?qs = []" using prev by (simp add: first_sort_key_None)
    then have "set ?qs = {}" by simp
    with set_qs None show ?thesis by auto
  next
    case (Some r)
    from first_sort_key[OF Some[unfolded prev]]
    have r: "r \<in> set ?qs"
      and least: "\<forall>x\<in>set ?qs. minus_published nulls_first r \<le> minus_published nulls_first x"
      by auto
    from r set_qs obtain q where q: "r \<in> others" "published r = Some q" "q < p" by auto
    have "q' \<le> q" if "s \<in> others" "published s = Some q'" "q' < p" for s q'
    proof -
      from that set_qs have "s \<in> set ?qs" by auto
      with least have "minus_published nulls_first r \<le> minus_published nulls_first s" by blast
      with q(2) that(2) show ?thesis by (simp add: minus_published_def)
    qed
    with q Some show ?thesis by auto
  qed
next
  assume a: "published self = None \<and> (\<forall>s\<in>others. published s \<noteq> None)"
  let ?qs = "filter (\<lambda>s. pk s \<noteq> pk self)
                (filter (\<lambda>s. event_pk (event s) = event_pk (event self)) (schedules db))"
  have prev: "previous_schedule nulls_first db self
                = first (sort_key (minus_published nulls_first) ?qs)"
    using a by (simp add: previous_schedule_def)
  have set_qs: "set ?qs = others"
    by (auto simp: others_def)
  show "case previous_schedule nulls_first db self of
               None \<Rightarrow> others = {}
             | Some r \<Rightarrow> r \<in> others \<and> (\<exists>q. published r = Some q
                  \<and> (\<forall>s\<in>others. \<forall>q'. published s = Some q' \<longrightarrow> q' \<le> q))"
  proof (cases "previous_schedule nulls_first db self")
    case None
    then have "?qs = []" using prev by (simp add: first_sort_key_None)
    then have "set ?qs = {}" by simp
    with set_qs None show ?thesis by auto
  next
    case (Some r)
    from first_sort_key[OF Some[unfolded prev]]
    have r: "r \<in> set ?qs"
      and least: "\<forall>x\<in>set ?qs. minus_published nulls_first r \<le> minus_published nulls_first x"
      by auto
    from r set_qs a obtain q where q: "r \<in> others" "published r = Some q" by auto
    have "q' \<le> q" if "s \<in> others" "published s = Some q'" for s q'
    proof -
      from that set_qs have "s \<in> set ?qs" by auto
      with least have "minus_published nulls_first r \<le> minus_published nulls_first s" by blast
      with q(2) that(2) show ?thesis by (simp add: minus_published_def)
    qed
    with q Some show ?thesis by auto
  qed
next
  fix iter assume "previous_schedule nulls_first db self = None"
  from compare_create[OF this, of iter]
  show "\<exists>changes. compare_schedule_with_predecessor iter nulls_first db self = Inr changes
                \<and> action changes = ''create''" by simp
qed

text \<open>
  With versions \<open>v1\<close> (published at 100) and \<open>v2\<close> (at 200) and the draft: the
  predecessor of \<open>v2\<close> is \<open>v1\<close>, that of the draft is \<open>v2\<close>, and \<open>v1\<close> has none.
\<close>

theorem previous_schedule_resolution_witness:
  "previous_schedule True example_versions schedule_v2 = Some schedule_v1
   \<and> previous_schedule True example_versions schedule_wip = Some schedule_v2
   \<and> previous_schedule True example_versions schedule_v1 = None
   \<and> (\<exists>changes. compare_schedule_with_predecessor rev True example_versions schedule_v1
                   = Inr changes \<and> action changes = ''create'')"
  using previous_schedule_resolution[of schedule_v1 example_versions True]
  by (simp add: previous_schedule_def example_versions_def schedule_v1_def schedule_v2_def
      schedule_wip_def first_def minus_published_def)

section \<open>Properties of the diff of two schedules\<close>

lemma unhandled_set: "set (unhandled H ps) = set ps - H"
  by (induction ps arbitrary: H) auto

lemma unhandled_distinct: "distinct (unhandled H ps)"
  by (induction ps arbitrary: H) (auto simp: unhandled_set)

lemma missing_loop_classify:
  "missing_loop old new (set (map (\<lambda>slot. sub_pk (submission slot)) new)) z entries (r, H) =
     (case classify_each (classify_removed old new z) (unhandled H (map fst entries)) r of
        Inl e \<Rightarrow> Inl e
      | Inr r' \<Rightarrow> Inr (r', H \<union> set (map fst entries)))"
proof (induction entries arbitrary: r H)
  case Nil
  show ?case by simp
next
  case (Cons entry rest)
  show ?case
  proof (cases "fst entry \<in> H")
    case True
    then have hset: "H \<union> set (map fst (entry # rest)) = H \<union> set (map fst rest)" by auto
    show ?thesis unfolding hset using True Cons.IH[of r H] by simp
  next
    case False
    have un: "H \<union> set (map fst (entry # rest)) = insert (fst entry) H \<union> set (map fst rest)"
      by auto
    show ?thesis
    proof (cases "fst entry \<in> set (map (\<lambda>slot. sub_pk (submission slot)) new)")
      case inn: True
      show ?thesis
      proof (cases "handle_submission_move (fst entry) old new z")
        case (Inl e)
        with False inn show ?thesis by (simp add: classify_removed_def)
      next
        case (Inr t)
        obtain n c m where t: "t = (n, c, m)" by (cases t)
        show ?thesis unfolding un
          using False inn Inr t Cons.IH[of _ "insert (fst entry) H"]
          by (simp add: classify_removed_def)
      qed
    next
      case notin: False
      show ?thesis unfolding un
        using False notin Cons.IH[of _ "insert (fst entry) H"]
        by (simp add: classify_removed_def)
    qed
  qed
qed


lemma new_loop_classify:
  "new_loop old new (set (map (\<lambda>slot. sub_pk (submission slot)) old)) z entries (r, H) =
     (case classify_each (classify_added old new z) (unhandled H (map fst entries)) r of
        Inl e \<Rightarrow> Inl e
      | Inr r' \<Rightarrow> Inr (r', H \<union> set (map fst entries)))"
proof (induction entries arbitrary: r H)
  case Nil
  show ?case by simp
next
  case (Cons entry rest)
  show ?case
  proof (cases "fst entry \<in> H")
    case True
    then have hset: "H \<union> set (map fst (entry # rest)) = H \<union> set (map fst rest)" by auto
    show ?thesis unfolding hset using True Cons.IH[of r H] by simp
  next
    case False
    have un: "H \<union> set (map fst (entry # rest)) = insert (fst entry) H \<union> set (map fst rest)"
      by auto
    show ?thesis
    proof (cases "fst entry \<in> set (map (\<lambda>slot. sub_pk (submission slot)) old)")
      case inn: True
      show ?thesis
      proof (cases "handle_submission_move (fst entry) old new z")
        case (Inl e)
        with False inn show ?thesis by (simp add: classify_added_def)
      next
        case (Inr t)
        obtain n c m where t: "t = (n, c, m)" by (cases t)
        show ?thesis unfolding un
          using False inn Inr t Cons.IH[of _ "insert (fst entry) H"]
          by (simp add: classify_added_def)
      qed
    next
      case notin: False
      show ?thesis unfolding un
        using False notin Cons.IH[of _ "insert (fst entry) H"]
        by (simp add: classify_added_def)
    qed
  qed
qed

lemma in_map_Inr:
  assumes "map Inr ms = map f ps" "m \<in> set ms"
  shows "\<exists>p\<in>set ps. f p = Inr m"
proof -
  from assms(2) have "Inr m \<in> set (map Inr ms)" by simp
  then have "Inr m \<in> set (map f ps)" by (simp only: assms(1)[symmetric])
  then show ?thesis by (auto simp: image_iff)
qed

lemma handle_submission_move_sound:
  assumes "\<forall>t\<in>set old. is_scheduled t" "\<forall>t\<in>set new. is_scheduled t"
  shows "\<exists>t. handle_submission_move p old new z = Inr t \<and> sound_classification old new z p t"
proof -
  let ?A = "unmatched p old new" and ?B = "unmatched p new old"
  from handle_submission_move_scheduled[OF assms, of p z]
  obtain moved where m:
    "handle_submission_move p old new z =
       Inr (take (length ?B - length ?A) ?B, take (length ?A - length ?B) ?A, moved)"
    "map Inr moved = map (\<lambda>(a, b). moved_entry z a b)
               (zip (drop (length ?A - length ?B) ?A) (drop (length ?B - length ?A) ?B))"
    by blast
  have "\<exists>a\<in>set ?A. \<exists>b\<in>set ?B. moved_entry z a b = Inr mv" if "mv \<in> set moved" for mv
  proof -
    from in_map_Inr[OF m(2) that] obtain a b where
      ab: "(a, b) \<in> set (zip (drop (length ?A - length ?B) ?A) (drop (length ?B - length ?A) ?B))"
      "moved_entry z a b = Inr mv" by auto
    from ab(1) have "a \<in> set ?A" "b \<in> set ?B"
      by (auto dest: set_zip_leftD set_zip_rightD in_set_dropD)
    with ab(2) show ?thesis by blast
  qed
  then have "sound_classification old new z p
       (take (length ?B - length ?A) ?B, take (length ?A - length ?B) ?A, moved)"
    by (auto simp: sound_classification_def dest: in_set_takeD)
  with m(1) show ?thesis by blast
qed

lemma classify_removed_sound:
  assumes "\<forall>t\<in>set old. is_scheduled t" "\<forall>t\<in>set new. is_scheduled t"
  shows "\<exists>t. classify_removed old new z p = Inr t \<and> sound_classification old new z p t"
proof (cases "p \<in> set (map (\<lambda>slot. sub_pk (submission slot)) new)")
  case True
  with handle_submission_move_sound[OF assms, of p z] show ?thesis
    by (simp add: classify_removed_def)
next
  case False
  then have "filter (\<lambda>slot. sub_pk (submission slot) = p) old = unmatched p old new"
    unfolding unmatched_char
    by (intro filter_cong) (auto simp: slot_key_def)
  with False show ?thesis
    by (simp add: classify_removed_def sound_classification_def)
qed

lemma classify_added_sound:
  assumes "\<forall>t\<in>set old. is_scheduled t" "\<forall>t\<in>set new. is_scheduled t"
  shows "\<exists>t. classify_added old new z p = Inr t \<and> sound_classification old new z p t"
proof (cases "p \<in> set (map (\<lambda>slot. sub_pk (submission slot)) old)")
  case True
  with handle_submission_move_sound[OF assms, of p z] show ?thesis
    by (simp add: classify_added_def)
next
  case False
  then have "filter (\<lambda>slot. sub_pk (submission slot) = p) new = unmatched p new old"
    unfolding unmatched_char
    by (intro filter_cong) (auto simp: slot_key_def)
  with False show ?thesis
    by (simp add: classify_added_def sound_classification_def)
qed

lemma sound_changes_step:
  assumes "sound_changes old new z r" "sound_classification old new z p (n, c, m)"
  shows "sound_changes old new z
           (r\<lparr>new_talks := new_talks r @ n, canceled_talks := canceled_talks r @ c,
              moved_talks := moved_talks r @ m\<rparr>)"
proof -
  from assms(2) have n: "\<forall>s\<in>set n. s \<in> set new \<and> slot_key s \<notin> set (map slot_key old)"
    and c: "\<forall>s\<in>set c. s \<in> set old \<and> slot_key s \<notin> set (map slot_key new)"
    unfolding sound_classification_def unmatched_char by auto
  have m: "\<forall>mv\<in>set m. \<exists>a\<in>set old. \<exists>b\<in>set new.
          moved_entry z a b = Inr mv
        \<and> slot_key a \<notin> set (map slot_key new) \<and> slot_key b \<notin> set (map slot_key old)"
  proof
    fix mv assume "mv \<in> set m"
    with assms(2) obtain a b where "a \<in> set (unmatched p old new)"
      "b \<in> set (unmatched p new old)" "moved_entry z a b = Inr mv"
      unfolding sound_classification_def by auto
    then show "\<exists>a\<in>set old. \<exists>b\<in>set new.
          moved_entry z a b = Inr mv
        \<and> slot_key a \<notin> set (map slot_key new) \<and> slot_key b \<notin> set (map slot_key old)"
      unfolding unmatched_char by auto
  qed
  from assms(1) n c m show ?thesis
    unfolding sound_changes_def by (simp add: ball_Un)
qed

lemma classify_each_sound:
  assumes "\<forall>p. \<exists>t. step p = Inr t \<and> sound_classification old new z p t"
    and "sound_changes old new z r"
  shows "\<exists>r'. classify_each step ps r = Inr r' \<and> sound_changes old new z r'
           \<and> action r' = action r"
  using assms(2)
proof (induction ps arbitrary: r)
  case Nil
  then show ?case by simp
next
  case (Cons p ps)
  from assms(1) obtain n c m where t: "step p = Inr (n, c, m)"
    "sound_classification old new z p (n, c, m)" by (metis prod_cases3)
  from Cons.IH[OF sound_changes_step[OF Cons.prems t(2)]] t(1)
  show ?case by simp
qed


lemma compare_classify:
  fixes iter :: "slot_key list \<Rightarrow> slot_key list"
  assumes prev: "previous_schedule nulls_first db schedule = Some previous"
  defines "old \<equiv> scheduled_talks db previous" and "new \<equiv> scheduled_talks db schedule"
  defines "S1 \<equiv> unhandled {} (map fst (iter (filter (\<lambda>entry. entry \<notin> set (map slot_key new))
                                                  (map slot_key old))))"
  defines "S2 \<equiv> unhandled (set S1) (map fst (iter (filter (\<lambda>entry. entry \<notin> set (map slot_key old))
                                                        (map slot_key new))))"
  shows "compare_schedule_with_predecessor iter nulls_first db schedule =
     (case classify_each (classify_removed old new (schedule_tz schedule)) S1
             \<lparr>count = 0, action = ''update'', new_talks = [], canceled_talks = [],
              moved_talks = []\<rparr> of
        Inl e \<Rightarrow> Inl e
      | Inr r1 \<Rightarrow>
          (case classify_each (classify_added old new (schedule_tz schedule)) S2 r1 of
             Inl e \<Rightarrow> Inl e
           | Inr r2 \<Rightarrow> Inr (r2\<lparr>count := length (new_talks r2) + length (canceled_talks r2)
                                        + length (moved_talks r2)\<rparr>)))"
proof -
  show ?thesis
    unfolding compare_schedule_with_predecessor_def Let_def prev option.case
      old_def[symmetric] new_def[symmetric] missing_loop_classify S1_def S2_def
    by (simp add: new_loop_classify[unfolded set_map] unhandled_set split: sum.splits)
qed


lemma sound_changes_empty:
  "sound_changes old new z
     \<lparr>count = 0, action = ''update'', new_talks = [], canceled_talks = [], moved_talks = []\<rparr>"
  by (simp add: sound_changes_def)

lemma sound_changes_count: "sound_changes old new z (r\<lparr>count := n\<rparr>) = sound_changes old new z r"
  by (simp add: sound_changes_def)

lemma compare_sound:
  fixes iter :: "slot_key list \<Rightarrow> slot_key list"
  assumes prev: "previous_schedule nulls_first db schedule = Some previous"
  shows "\<exists>changes. compare_schedule_with_predecessor iter nulls_first db schedule = Inr changes
           \<and> sound_changes (scheduled_talks db previous) (scheduled_talks db schedule)
                (schedule_tz schedule) changes
           \<and> action changes = ''update''
           \<and> count changes = length (new_talks changes) + length (canceled_talks changes)
                 + length (moved_talks changes)"
proof -
  let ?old = "scheduled_talks db previous" and ?new = "scheduled_talks db schedule"
  let ?z = "schedule_tz schedule"
  have sch: "\<forall>t\<in>set ?old. is_scheduled t" "\<forall>t\<in>set ?new. is_scheduled t"
    by (simp_all add: scheduled_talks_is_scheduled)
  have st1: "\<forall>p. \<exists>t. classify_removed ?old ?new ?z p = Inr t \<and> sound_classification ?old ?new ?z p t"
    using classify_removed_sound[OF sch] by blast
  have st2: "\<forall>p. \<exists>t. classify_added ?old ?new ?z p = Inr t \<and> sound_classification ?old ?new ?z p t"
    using classify_added_sound[OF sch] by blast
  from classify_each_sound[OF st1 sound_changes_empty]
  obtain r1 where r1: "classify_each (classify_removed ?old ?new ?z)
      (unhandled {} (map fst (iter (filter (\<lambda>entry. entry \<notin> set (map slot_key ?new))
                                                  (map slot_key ?old)))))
      \<lparr>count = 0, action = ''update'', new_talks = [], canceled_talks = [], moved_talks = []\<rparr>
       = Inr r1" "sound_changes ?old ?new ?z r1" "action r1 = ''update''"
    by (metis ChangeSet.select_convs(2))
  from classify_each_sound[OF st2 r1(2)]
  obtain r2 where r2: "classify_each (classify_added ?old ?new ?z)
      (unhandled (set (unhandled {} (map fst (iter (filter (\<lambda>entry. entry \<notin> set (map slot_key ?new))
                                                  (map slot_key ?old))))))
         (map fst (iter (filter (\<lambda>entry. entry \<notin> set (map slot_key ?old))
                                                        (map slot_key ?new))))) r1 = Inr r2"
      "sound_changes ?old ?new ?z r2" "action r2 = action r1"
    by blast
  have "compare_schedule_with_predecessor iter nulls_first db schedule =
          Inr (r2\<lparr>count := length (new_talks r2) + length (canceled_talks r2)
                                        + length (moved_talks r2)\<rparr>)"
    unfolding compare_classify[OF prev] by (simp only: r1(1) r2(1) sum.case)
  with r2(2,3) r1(3) show ?thesis by (simp add: sound_changes_count)
qed

lemma compare_total:
  "\<exists>changes. compare_schedule_with_predecessor iter nulls_first db schedule = Inr changes"
proof (cases "previous_schedule nulls_first db schedule")
  case None
  then show ?thesis by (simp add: compare_create)
next
  case (Some previous)
  from compare_sound[OF this] show ?thesis by blast
qed

lemma example_previous: "previous_schedule nulls_first example_db schedule_wip = Some schedule_v1"
  by (simp add: previous_schedule_def example_db_def schedule_v1_def schedule_wip_def first_def)

lemma sound_classification_submission:
  assumes "sound_classification old new z p (n, c, m)"
  shows "(\<forall>s\<in>set n \<union> set c. sub_pk (submission s) = p)
       \<and> (\<forall>mv\<in>set m. sub_pk (moved_submission mv) = p)"
proof -
  have "sub_pk (moved_submission mv) = p" if "mv \<in> set m" for mv
  proof -
    from assms that obtain a b where ab: "b \<in> set (unmatched p new old)"
      "moved_entry z a b = Inr mv"
      unfolding sound_classification_def by auto
    from ab(2) have "moved_submission mv = submission b"
      by (auto simp: moved_entry_def split: option.splits)
    with ab(1) show ?thesis by (simp add: unmatched_char)
  qed
  moreover have "\<forall>s\<in>set n \<union> set c. sub_pk (submission s) = p"
    using assms unfolding sound_classification_def unmatched_char by auto
  ultimately show ?thesis by blast
qed

text \<open>
  C6. When the schedule has a predecessor, the comparison returns a change-set in which
  no slot whose \<open>(submission, room, start)\<close> triple is among the scheduled slots of
  both schedules is a new or a canceled talk, and every moved talk is built from an old
  and a new scheduled slot whose triples are not in both. When the two sets of triples
  are equal (and iterating the empty set visits nothing), the change-set has count 0
  and empty lists. This holds for every order in which the sets are iterated.
\<close>

theorem unchanged_slots_produce_no_entry:
  fixes iter :: "slot_key list \<Rightarrow> slot_key list"
  assumes prev: "previous_schedule nulls_first db schedule = Some previous"
  defines "old_slots \<equiv> scheduled_talks db previous"
    and "new_slots \<equiv> scheduled_talks db schedule"
  defines "both \<equiv> set (map slot_key old_slots) \<inter> set (map slot_key new_slots)"
  shows "\<exists>changes.
           compare_schedule_with_predecessor iter nulls_first db schedule = Inr changes
         \<and> (\<forall>slot. slot_key slot \<in> both \<longrightarrow>
               slot \<notin> set (new_talks changes) \<and> slot \<notin> set (canceled_talks changes))
         \<and> (\<forall>mv\<in>set (moved_talks changes). \<exists>a\<in>set old_slots. \<exists>b\<in>set new_slots.
               moved_entry (schedule_tz schedule) a b = Inr mv
             \<and> slot_key a \<notin> both \<and> slot_key b \<notin> both)
         \<and> (set (map slot_key old_slots) = set (map slot_key new_slots) \<and> iter [] = [] \<longrightarrow>
               changes = \<lparr>count = 0, action = ''update'', new_talks = [], canceled_talks = [],
                          moved_talks = []\<rparr>)"
proof -
  from compare_sound[OF prev, of iter]
  obtain changes where c:
    "compare_schedule_with_predecessor iter nulls_first db schedule = Inr changes"
    "sound_changes old_slots new_slots (schedule_tz schedule) changes"
    unfolding old_slots_def new_slots_def by blast
  have 1: "\<forall>slot. slot_key slot \<in> both \<longrightarrow>
               slot \<notin> set (new_talks changes) \<and> slot \<notin> set (canceled_talks changes)"
    using c(2) unfolding sound_changes_def both_def by blast
  have 2: "\<forall>mv\<in>set (moved_talks changes). \<exists>a\<in>set old_slots. \<exists>b\<in>set new_slots.
               moved_entry (schedule_tz schedule) a b = Inr mv
             \<and> slot_key a \<notin> both \<and> slot_key b \<notin> both"
  proof
    fix mv assume "mv \<in> set (moved_talks changes)"
    with c(2) obtain a b where "a \<in> set old_slots" "b \<in> set new_slots"
      "moved_entry (schedule_tz schedule) a b = Inr mv"
      "slot_key a \<notin> set (map slot_key new_slots)" "slot_key b \<notin> set (map slot_key old_slots)"
      unfolding sound_changes_def by blast
    then show "\<exists>a\<in>set old_slots. \<exists>b\<in>set new_slots.
               moved_entry (schedule_tz schedule) a b = Inr mv
             \<and> slot_key a \<notin> both \<and> slot_key b \<notin> both"
      unfolding both_def by blast
  qed
  have 3: "changes = \<lparr>count = 0, action = ''update'', new_talks = [], canceled_talks = [],
                          moved_talks = []\<rparr>"
    if eq: "set (map slot_key old_slots) = set (map slot_key new_slots)" and it: "iter [] = []"
  proof -
    have "filter (\<lambda>entry. entry \<notin> set (map slot_key new_slots)) (map slot_key old_slots) = []"
      unfolding eq[symmetric] by (simp add: filter_empty_conv)
    moreover
    have "filter (\<lambda>entry. entry \<notin> set (map slot_key old_slots)) (map slot_key new_slots) = []"
      unfolding eq by (simp add: filter_empty_conv)
    ultimately have "compare_schedule_with_predecessor iter nulls_first db schedule =
        Inr \<lparr>count = 0, action = ''update'', new_talks = [], canceled_talks = [],
                          moved_talks = []\<rparr>"
      unfolding compare_classify[OF prev] old_slots_def[symmetric] new_slots_def[symmetric]
      by (simp add: it)
    with c(1) show ?thesis by simp
  qed
  from c(1) 1 2 3 show ?thesis by blast
qed

text \<open>
  In the example, the slot of submission 1 and the first slot of submission 4 are in
  both schedules, and none of their four slot records is listed.
\<close>

theorem unchanged_slots_produce_no_entry_witness:
  "previous_schedule False example_db schedule_wip = Some schedule_v1
   \<and> (\<exists>changes. compare_schedule_with_predecessor rev False example_db schedule_wip = Inr changes
         \<and> example_slot 1 1 1 1 10 \<notin> set (new_talks changes)
         \<and> example_slot 1 1 1 1 10 \<notin> set (canceled_talks changes)
         \<and> example_slot 10 2 4 1 9 \<notin> set (new_talks changes)
         \<and> example_slot 10 2 4 1 9 \<notin> set (canceled_talks changes))"
proof -
  note prev = example_previous[of False]
  from unchanged_slots_produce_no_entry[OF prev, of rev]
  obtain changes where c:
    "compare_schedule_with_predecessor rev False example_db schedule_wip = Inr changes"
    "\<forall>slot. slot_key slot \<in> set (map slot_key (scheduled_talks example_db schedule_v1))
                              \<inter> set (map slot_key (scheduled_talks example_db schedule_wip)) \<longrightarrow>
               slot \<notin> set (new_talks changes) \<and> slot \<notin> set (canceled_talks changes)"
    by blast
  have "slot_key (example_slot 1 1 1 1 10)
          \<in> set (map slot_key (scheduled_talks example_db schedule_v1))
            \<inter> set (map slot_key (scheduled_talks example_db schedule_wip))"
    "slot_key (example_slot 10 2 4 1 9)
          \<in> set (map slot_key (scheduled_talks example_db schedule_v1))
            \<inter> set (map slot_key (scheduled_talks example_db schedule_wip))"
    by (simp_all add: example_old_slots example_new_slots slot_key_example_slot)
  with c prev show ?thesis by blast
qed

text \<open>
  C9. With a predecessor, and sets iterated over exactly their elements, the two loops
  amount to classifying each submission of a list \<open>S1\<close> once with the step of the
  removed side and then each submission of a list \<open>S2\<close> once with the step of the
  added side: the two lists together have no submission twice, \<open>S1\<close> holds the
  submissions of the triples only in the old set, \<open>S2\<close> those of the triples only in
  the new set that are not in \<open>S1\<close>. Each step returns only slots and moves of its own
  submission, so no slot is classified by two steps.
\<close>

theorem compare_classifies_each_submission_once:
  fixes iter :: "slot_key list \<Rightarrow> slot_key list"
  assumes iter: "\<forall>entries. set (iter entries) = set entries"
    and prev: "previous_schedule nulls_first db schedule = Some previous"
  defines "old_slots \<equiv> scheduled_talks db previous"
    and "new_slots \<equiv> scheduled_talks db schedule"
  defines "moved_or_missing \<equiv> set (map slot_key old_slots) - set (map slot_key new_slots)"
    and "moved_or_new \<equiv> set (map slot_key new_slots) - set (map slot_key old_slots)"
  defines "removed_step \<equiv> classify_removed old_slots new_slots (schedule_tz schedule)"
    and "added_step \<equiv> classify_added old_slots new_slots (schedule_tz schedule)"
  shows "\<exists>S1 S2 r1 r2.
           distinct (S1 @ S2)
         \<and> set S1 = fst ` moved_or_missing
         \<and> set S2 = fst ` moved_or_new - fst ` moved_or_missing
         \<and> classify_each removed_step S1
              \<lparr>count = 0, action = ''update'', new_talks = [], canceled_talks = [],
               moved_talks = []\<rparr> = Inr r1
         \<and> classify_each added_step S2 r1 = Inr r2
         \<and> compare_schedule_with_predecessor iter nulls_first db schedule
             = Inr (r2\<lparr>count := length (new_talks r2) + length (canceled_talks r2)
                                 + length (moved_talks r2)\<rparr>)
         \<and> (\<forall>p. \<exists>new canceled moved.
               removed_step p = Inr (new, canceled, moved)
             \<and> (\<forall>slot\<in>set new \<union> set canceled. sub_pk (submission slot) = p)
             \<and> (\<forall>mv\<in>set moved. sub_pk (moved_submission mv) = p))
         \<and> (\<forall>p. \<exists>new canceled moved.
               added_step p = Inr (new, canceled, moved)
             \<and> (\<forall>slot\<in>set new \<union> set canceled. sub_pk (submission slot) = p)
             \<and> (\<forall>mv\<in>set moved. sub_pk (moved_submission mv) = p))"
proof -
  let ?z = "schedule_tz schedule"
  let ?E1 = "iter (filter (\<lambda>entry. entry \<notin> set (map slot_key new_slots)) (map slot_key old_slots))"
  let ?E2 = "iter (filter (\<lambda>entry. entry \<notin> set (map slot_key old_slots)) (map slot_key new_slots))"
  let ?S1 = "unhandled {} (map fst ?E1)"
  let ?S2 = "unhandled (set ?S1) (map fst ?E2)"
  have sch: "\<forall>t\<in>set old_slots. is_scheduled t" "\<forall>t\<in>set new_slots. is_scheduled t"
    by (simp_all add: old_slots_def new_slots_def scheduled_talks_is_scheduled)
  have st1: "\<forall>p. \<exists>t. removed_step p = Inr t \<and> sound_classification old_slots new_slots ?z p t"
    unfolding removed_step_def using classify_removed_sound[OF sch] by blast
  have st2: "\<forall>p. \<exists>t. added_step p = Inr t \<and> sound_classification old_slots new_slots ?z p t"
    unfolding added_step_def using classify_added_sound[OF sch] by blast
  have E1: "set ?E1 = moved_or_missing" and E2: "set ?E2 = moved_or_new"
    using iter by (auto simp: moved_or_missing_def moved_or_new_def)
  have S1: "set ?S1 = fst ` moved_or_missing"
    unfolding unhandled_set using E1 by simp
  have S2: "set ?S2 = fst ` moved_or_new - fst ` moved_or_missing"
    unfolding unhandled_set using E1 E2 by simp
  have d: "distinct (?S1 @ ?S2)"
    using unhandled_distinct[of "{}" "map fst ?E1"] unhandled_distinct[of "set ?S1" "map fst ?E2"]
      unhandled_set[of "set ?S1" "map fst ?E2"]
    by (simp only: distinct_append) blast
  from classify_each_sound[OF st1 sound_changes_empty]
  obtain r1 where r1: "classify_each removed_step ?S1
      \<lparr>count = 0, action = ''update'', new_talks = [], canceled_talks = [], moved_talks = []\<rparr>
       = Inr r1" "sound_changes old_slots new_slots ?z r1"
    by blast
  from classify_each_sound[OF st2 r1(2)]
  obtain r2 where r2: "classify_each added_step ?S2 r1 = Inr r2"
    by blast
  have cmp: "compare_schedule_with_predecessor iter nulls_first db schedule =
          Inr (r2\<lparr>count := length (new_talks r2) + length (canceled_talks r2)
                                        + length (moved_talks r2)\<rparr>)"
    unfolding compare_classify[OF prev] old_slots_def[symmetric] new_slots_def[symmetric]
      removed_step_def[symmetric] added_step_def[symmetric]
    by (simp only: r1(1) r2(1) sum.case)
  have own1: "\<forall>p. \<exists>new canceled moved.
               removed_step p = Inr (new, canceled, moved)
             \<and> (\<forall>slot\<in>set new \<union> set canceled. sub_pk (submission slot) = p)
             \<and> (\<forall>mv\<in>set moved. sub_pk (moved_submission mv) = p)"
  proof
    fix p
    from st1 obtain n c m where "removed_step p = Inr (n, c, m)"
      "sound_classification old_slots new_slots ?z p (n, c, m)" by (metis prod_cases3)
    with sound_classification_submission[OF this(2)]
    show "\<exists>new canceled moved.
               removed_step p = Inr (new, canceled, moved)
             \<and> (\<forall>slot\<in>set new \<union> set canceled. sub_pk (submission slot) = p)
             \<and> (\<forall>mv\<in>set moved. sub_pk (moved_submission mv) = p)" by blast
  qed
  have own2: "\<forall>p. \<exists>new canceled moved.
               added_step p = Inr (new, canceled, moved)
             \<and> (\<forall>slot\<in>set new \<union> set canceled. sub_pk (submission slot) = p)
             \<and> (\<forall>mv\<in>set moved. sub_pk (moved_submission mv) = p)"
  proof
    fix p
    from st2 obtain n c m where "added_step p = Inr (n, c, m)"
      "sound_classification old_slots new_slots ?z p (n, c, m)" by (metis prod_cases3)
    with sound_classification_submission[OF this(2)]
    show "\<exists>new canceled moved.
               added_step p = Inr (new, canceled, moved)
             \<and> (\<forall>slot\<in>set new \<union> set canceled. sub_pk (submission slot) = p)
             \<and> (\<forall>mv\<in>set moved. sub_pk (moved_submission mv) = p)" by blast
  qed
  from d S1 S2 r1(1) r2 cmp own1 own2 show ?thesis by blast
qed


text \<open>
  In the example, submissions 2, 4, 5 and 6 are classified by the removed side and
  submission 3 by the added side; 2 and 5, which are on both sides, only once.
\<close>

theorem compare_classifies_each_submission_once_witness:
  "(\<forall>entries :: slot_key list. set (rev entries) = set entries)
   \<and> previous_schedule False example_db schedule_wip = Some schedule_v1
   \<and> (\<exists>S1 S2 r1 r2.
         distinct (S1 @ S2) \<and> set S1 = {2, 4, 5, 6} \<and> set S2 = {3}
       \<and> classify_each
            (classify_removed (scheduled_talks example_db schedule_v1)
               (scheduled_talks example_db schedule_wip) (schedule_tz schedule_wip)) S1
            \<lparr>count = 0, action = ''update'', new_talks = [], canceled_talks = [],
             moved_talks = []\<rparr> = Inr r1
       \<and> classify_each
            (classify_added (scheduled_talks example_db schedule_v1)
               (scheduled_talks example_db schedule_wip) (schedule_tz schedule_wip)) S2 r1
           = Inr r2
       \<and> compare_schedule_with_predecessor rev False example_db schedule_wip
           = Inr (r2\<lparr>count := length (new_talks r2) + length (canceled_talks r2)
                               + length (moved_talks r2)\<rparr>))"
proof -
  have it: "\<forall>entries :: slot_key list. set (rev entries) = set entries" by simp
  note prev = example_previous[of False]
  have 1: "fst ` (set (map slot_key (scheduled_talks example_db schedule_v1))
                 - set (map slot_key (scheduled_talks example_db schedule_wip))) = {2, 4, 5, 6}"
    by (simp add: example_old_slots example_new_slots slot_key_example_slot insert_Diff_if)
  have 2: "fst ` (set (map slot_key (scheduled_talks example_db schedule_wip))
                 - set (map slot_key (scheduled_talks example_db schedule_v1))) = {2, 3, 5}"
    by (simp add: example_old_slots example_new_slots slot_key_example_slot insert_Diff_if)
  have 3: "{2, 3, 5} - {2, 4, 5, 6} = {3 :: nat}" by auto
  from compare_classifies_each_submission_once[OF it prev]
  show ?thesis unfolding 1 2 3 using it prev by blast
qed

section \<open>Properties of the notification mapping\<close>

lemma defaultdict_update_keys:
  "map fst (defaultdict_update dflt k f d) = (if k \<in> set (map fst d) then map fst d else map fst d @ [k])"
  by (induction d) force+

lemma defaultdict_update_map_of:
  "map_of (defaultdict_update dflt k f d) k' =
     (if k' = k then Some (f (case map_of d k of None \<Rightarrow> dflt | Some v \<Rightarrow> v)) else map_of d k')"
  by (induction d) auto

lemma nested_foldl_events:
  "foldl (\<lambda>d t. foldl (\<lambda>d k. defaultdict_update dflt k (f t) d) d (ks t)) d ts
     = apply_events dflt f d (concat (map (\<lambda>t. map (\<lambda>k. (k, t)) (ks t)) ts))"
proof (induction ts arbitrary: d)
  case Nil
  show ?case by (simp add: apply_events_def)
next
  case (Cons t ts)
  have inner: "foldl (\<lambda>d k. defaultdict_update dflt k (f t) d) d ks'
        = foldl (\<lambda>d (k, x). defaultdict_update dflt k (f x) d) d (map (\<lambda>k. (k, t)) ks')" for ks' d
    by (induction ks' arbitrary: d) auto
  show ?case
    using Cons.IH by (simp add: apply_events_def inner)
qed

lemma apply_events_keys_distinct:
  "distinct (map fst d) \<Longrightarrow> distinct (map fst (apply_events dflt f d es))"
  unfolding apply_events_def
  by (induction es arbitrary: d) (auto simp: defaultdict_update_keys split: prod.splits)

lemma apply_events_keys_set:
  "set (map fst (apply_events dflt f d es)) = set (map fst d) \<union> fst ` set es"
  unfolding apply_events_def
proof (induction es arbitrary: d)
  case Nil show ?case by simp
next
  case (Cons e es)
  obtain k x where e: "e = (k, x)" by (cases e)
  show ?case unfolding e
    by (simp add: Cons.IH defaultdict_update_keys del: set_map) auto
qed

lemma apply_events_map_of:
  "map_of (apply_events dflt f d es) k =
     (if k \<in> fst ` set es
      then Some (foldl (\<lambda>v x. f x v) (case map_of d k of None \<Rightarrow> dflt | Some v \<Rightarrow> v)
                   (map snd (filter (\<lambda>e. fst e = k) es)))
      else map_of d k)"
  unfolding apply_events_def
proof (induction es arbitrary: d)
  case Nil show ?case by simp
next
  case (Cons e es)
  obtain k' x where e: "e = (k', x)" by (cases e)
  have no: "k \<notin> fst ` set es \<Longrightarrow> filter (\<lambda>e. fst e = k) es = []"
    by (auto simp: filter_empty_conv)
  show ?case unfolding e
    by (simp add: Cons.IH defaultdict_update_map_of no)
qed


lemma foldl_append_create:
  "foldl (\<lambda>v t. v\<lparr>create := create v @ [t]\<rparr>) v xs = v\<lparr>create := create v @ xs\<rparr>"
  by (induction xs arbitrary: v) auto

lemma foldl_append_update:
  "foldl (\<lambda>v m. v\<lparr>update := update v @ [m]\<rparr>) v xs = v\<lparr>update := update v @ xs\<rparr>"
  by (induction xs arbitrary: v) auto

lemma events_for_key:
  "map snd (filter (\<lambda>e. fst e = sp) (concat (map (\<lambda>t. map (\<lambda>k. (k, t)) (ks t)) ts)))
     = [t. t \<leftarrow> ts, u \<leftarrow> ks t, u = sp]"
proof (induction ts)
  case Nil show ?case by simp
next
  case (Cons t ts)
  have "map snd (filter (\<lambda>e. fst e = sp) (map (\<lambda>k. (k, t)) ks'))
          = concat (map (\<lambda>u. if u = sp then [t] else []) ks')" for ks'
    by (induction ks') auto
  with Cons show ?case by simp
qed

lemma events_keys_filter:
  "sp \<in> fst ` set es \<longleftrightarrow> map snd (filter (\<lambda>e. fst e = sp) es) \<noteq> []"
proof -
  have "filter (\<lambda>e. fst e = sp) es \<noteq> [] \<longleftrightarrow> (\<exists>e\<in>set es. fst e = sp)"
    by (simp add: filter_empty_conv)
  then show ?thesis by (simp add: image_iff) metis
qed

lemma events_keys:
  "sp \<in> fst ` set (concat (map (\<lambda>t. map (\<lambda>k. (k, t)) (ks t)) ts))
     \<longleftrightarrow> [t. t \<leftarrow> ts, u \<leftarrow> ks t, u = sp] \<noteq> []"
  unfolding events_keys_filter events_for_key ..

lemma reading_bound: "set names \<subseteq> set globals \<Longrightarrow> reading globals names k = k"
proof -
  assume "set names \<subseteq> set globals"
  then have "find (\<lambda>n. n \<notin> set globals) names = None"
    by (auto simp: find_None_iff)
  then show ?thesis by (simp add: reading_def unbound_def)
qed

lemma speakers_with_changed_slots_when_bound:
  fixes iter :: "slot_key list \<Rightarrow> slot_key list"
  assumes cmp: "compare_schedule_with_predecessor iter nulls_first db schedule = Inr changes"
    and upd: "action changes = ''update''"
    and bound: "''defaultdict'' \<in> set globals"
  defines "created \<equiv> \<lambda>speaker. [new_talk. new_talk \<leftarrow> new_talks changes,
                                    u \<leftarrow> speakers (submission new_talk), u = speaker]"
    and "updated \<equiv> \<lambda>speaker. [moved_talk. moved_talk \<leftarrow> moved_talks changes,
                                    u \<leftarrow> speakers (moved_submission moved_talk), u = speaker]"
  shows "(count changes = length (canceled_talks changes)
            \<longleftrightarrow> new_talks changes = [] \<and> moved_talks changes = [])
       \<and> (count changes = length (canceled_talks changes) \<longrightarrow>
            speakers_with_changed_slots globals iter nulls_first db schedule = Inr (PyList []))
       \<and> (count changes \<noteq> length (canceled_talks changes) \<longrightarrow>
            (\<exists>result. speakers_with_changed_slots globals iter nulls_first db schedule = Inr (PyDict result)
               \<and> distinct (map fst result)
               \<and> (\<forall>speaker. map_of result speaker =
                     (if created speaker = [] \<and> updated speaker = [] then None
                      else Some \<lparr>create = created speaker, update = updated speaker\<rparr>))))"
proof -
  have "previous_schedule nulls_first db schedule \<noteq> None"
  proof
    assume "previous_schedule nulls_first db schedule = None"
    from compare_create[OF this, of iter] cmp upd show False by auto
  qed
  then obtain previous where "previous_schedule nulls_first db schedule = Some previous" by auto
  from compare_sound[OF this, of iter] cmp
  have cnt: "count changes = length (new_talks changes) + length (canceled_talks changes)
                 + length (moved_talks changes)" by auto
  then have 1: "count changes = length (canceled_talks changes)
            \<longleftrightarrow> new_talks changes = [] \<and> moved_talks changes = []" by auto
  have 2: "speakers_with_changed_slots globals iter nulls_first db schedule = Inr (PyList [])"
    if "count changes = length (canceled_talks changes)"
    using that cmp upd by (simp add: speakers_with_changed_slots_def)
  let ?dflt = "\<lparr>create = [], update = []\<rparr>"
  let ?e1 = "concat (map (\<lambda>t. map (\<lambda>k. (k, t)) (speakers (submission t))) (new_talks changes))"
  let ?e2 = "concat (map (\<lambda>t. map (\<lambda>k. (k, t)) (speakers (moved_submission t))) (moved_talks changes))"
  let ?d1 = "apply_events ?dflt (\<lambda>new_talk n. n\<lparr>create := create n @ [new_talk]\<rparr>) [] ?e1"
  let ?d2 = "apply_events ?dflt (\<lambda>moved_talk n. n\<lparr>update := update n @ [moved_talk]\<rparr>) ?d1 ?e2"
  have n1: "foldl (\<lambda>d new_talk.
                 foldl (\<lambda>d speaker. defaultdict_update ?dflt speaker
                                        (\<lambda>n. n\<lparr>create := create n @ [new_talk]\<rparr>) d)
                   d (speakers (submission new_talk)))
              [] (new_talks changes) = ?d1"
    by (rule nested_foldl_events[where f = "\<lambda>new_talk n. n\<lparr>create := create n @ [new_talk]\<rparr>"
          and ks = "\<lambda>t. speakers (submission t)"])
  have n2: "foldl (\<lambda>d moved_talk.
                 foldl (\<lambda>d speaker. defaultdict_update ?dflt speaker
                                        (\<lambda>n. n\<lparr>update := update n @ [moved_talk]\<rparr>) d)
                   d (speakers (moved_submission moved_talk)))
              ?d1 (moved_talks changes) = ?d2"
    by (rule nested_foldl_events[where f = "\<lambda>moved_talk n. n\<lparr>update := update n @ [moved_talk]\<rparr>"
          and ks = "\<lambda>t. speakers (moved_submission t)"])
  have rd: "reading globals [''defaultdict''] k = k" for k :: "error + speakers_concerned"
    using bound by (simp add: reading_def unbound_def)
  have 3: "speakers_with_changed_slots globals iter nulls_first db schedule = Inr (PyDict ?d2)"
    if ne: "count changes \<noteq> length (canceled_talks changes)"
  proof -
    have "''update'' \<noteq> ''create''" by simp
    then show ?thesis
      unfolding speakers_with_changed_slots_def Let_def cmp sum.case upd
      by (simp only: ne if_False n1 n2 rd)
  qed
  have dist: "distinct (map fst ?d2)"
    by (intro apply_events_keys_distinct) simp
  have k1: "sp \<in> fst ` set ?e1 \<longleftrightarrow> created sp \<noteq> []" for sp
    unfolding created_def by (rule events_keys)
  have x1: "map snd (filter (\<lambda>e. fst e = sp) ?e1) = created sp" for sp
    unfolding created_def by (rule events_for_key)
  have k2: "sp \<in> fst ` set ?e2 \<longleftrightarrow> updated sp \<noteq> []" for sp
    unfolding updated_def by (rule events_keys)
  have x2: "map snd (filter (\<lambda>e. fst e = sp) ?e2) = updated sp" for sp
    unfolding updated_def by (rule events_for_key)
  have m1: "map_of ?d1 sp = (if created sp = [] then None
                             else Some \<lparr>create = created sp, update = []\<rparr>)" for sp
    unfolding apply_events_map_of k1 x1 foldl_append_create
    by simp
  have m2: "map_of ?d2 sp = (if created sp = [] \<and> updated sp = [] then None
                      else Some \<lparr>create = created sp, update = updated sp\<rparr>)" for sp
    unfolding apply_events_map_of[where d = ?d1] k2 x2 foldl_append_update m1
    by simp
  show ?thesis
  proof (intro conjI impI)
    show "count changes = length (canceled_talks changes)
            \<longleftrightarrow> new_talks changes = [] \<and> moved_talks changes = []" by (rule 1)
  next
    assume "count changes = length (canceled_talks changes)"
    then show "speakers_with_changed_slots globals iter nulls_first db schedule = Inr (PyList [])" by (rule 2)
  next
    assume "count changes \<noteq> length (canceled_talks changes)"
    from 3[OF this] have "speakers_with_changed_slots globals iter nulls_first db schedule = Inr (PyDict ?d2)
        \<and> distinct (map fst ?d2)
        \<and> (\<forall>speaker. map_of ?d2 speaker =
                     (if created speaker = [] \<and> updated speaker = [] then None
                      else Some \<lparr>create = created speaker, update = updated speaker\<rparr>))"
      using dist m2 by (intro conjI allI)
    then show "\<exists>result. speakers_with_changed_slots globals iter nulls_first db schedule = Inr (PyDict result)
               \<and> distinct (map fst result)
               \<and> (\<forall>speaker. map_of result speaker =
                     (if created speaker = [] \<and> updated speaker = [] then None
                      else Some \<lparr>create = created speaker, update = updated speaker\<rparr>))"
      by (rule exI)
  qed
qed

lemma moved_entry_example:
  "moved_entry ''UTC'' (example_slot n s sub r t) (example_slot n' s' sub' r' t')
     = Inr (example_moved sub' t t' r r')"
  by (simp add: moved_entry_def example_slot_def example_moved_def example_room_def)

lemma is_same_slot_example:
  "is_same_slot (example_slot n s sub r t) (example_slot n' s' sub' r' t')
     \<longleftrightarrow> sub = sub' \<and> r = r' \<and> t = t'"
  by (simp add: is_same_slot_def slot_key_example_slot)

lemma example_tz: "schedule_tz schedule_wip = ''UTC''"
  by (simp add: schedule_tz_def schedule_wip_def example_event_def)

lemma example_changes:
  "compare_schedule_with_predecessor rev False example_db schedule_wip =
     Inr \<lparr>count = 6, action = ''update'',
          new_talks = [example_slot 11 2 5 2 16, example_slot 9 2 3 1 12],
          canceled_talks = [example_slot 6 1 6 3 18, example_slot 4 1 4 1 14],
          moved_talks = [example_moved 5 15 17 2 3, example_moved 2 11 11 2 3]\<rparr>"
  by (simp add: compare_schedule_with_predecessor_def example_previous example_old_slots
      example_new_slots slot_key_example_slot sub_pk_example_slot handle_submission_move_def
      is_same_slot_example moved_entry_example example_tz Let_def)


lemma speakers_example_slot: "speakers (submission (example_slot n s sub r t)) = [10 + sub]"
  by (simp add: example_slot_def example_submission_def)

lemma speakers_example_moved: "speakers (moved_submission (example_moved sub t t' r r')) = [10 + sub]"
  by (simp add: example_moved_def example_submission_def)


text \<open>
  C8. In \<^verbatim>\<open>selectors.py\<close> as it is, for a change-set with action \<open>update\<close> that the
  comparison returns: when the count equals the number of canceled talks the function
  returns the list \<^verbatim>\<open>[]\<close>; otherwise, that is with at least one new or moved talk, it
  raises \<^verbatim>\<open>NameError\<close> for \<^verbatim>\<open>defaultdict\<close>, which the module never imports, and no
  mapping is built. (With the name bound the mapping is the one the claim describes:
  \<open>speakers_with_changed_slots_when_bound\<close>.)
\<close>

theorem speakers_with_changed_slots_in_selectors:
  fixes iter :: "slot_key list \<Rightarrow> slot_key list"
  assumes cmp: "compare_schedule_with_predecessor iter nulls_first db schedule = Inr changes"
    and upd: "action changes = ''update''"
  shows "(count changes = length (canceled_talks changes) \<longrightarrow>
            speakers_with_changed_slots selectors_globals iter nulls_first db schedule
              = Inr (PyList []))
       \<and> (count changes \<noteq> length (canceled_talks changes) \<longrightarrow>
            speakers_with_changed_slots selectors_globals iter nulls_first db schedule
              = Inl (NameError ''defaultdict''))"
  using cmp upd
  by (simp add: speakers_with_changed_slots_def reading_def unbound_def selectors_globals_def)

text \<open>
  In the example the draft has two new and two moved talks against version \<open>v1\<close>, and
  the function raises.
\<close>

theorem speakers_with_changed_slots_in_selectors_witness:
  "compare_schedule_with_predecessor rev False example_db schedule_wip =
     Inr \<lparr>count = 6, action = ''update'',
          new_talks = [example_slot 11 2 5 2 16, example_slot 9 2 3 1 12],
          canceled_talks = [example_slot 6 1 6 3 18, example_slot 4 1 4 1 14],
          moved_talks = [example_moved 5 15 17 2 3, example_moved 2 11 11 2 3]\<rparr>
   \<and> speakers_with_changed_slots selectors_globals rev False example_db schedule_wip
       = Inl (NameError ''defaultdict'')"
  using speakers_with_changed_slots_in_selectors[OF example_changes] example_changes
  by simp

section \<open>Properties of freeze\<close>

lemma atomic_Inr:
  "atomic body db = (Inr r, db') \<longleftrightarrow> body db = Inr (r, db')"
  by (auto simp: atomic_def split: sum.splits)

lemma atomic_Inl:
  "body db = Inl e \<Longrightarrow> atomic body db = (Inl e, db)"
  by (simp add: atomic_def)

lemma reading_unbound:
  "n \<notin> set globals \<Longrightarrow> reading globals [n] k = Inl (NameError n)"
  by (simp add: reading_def unbound_def)

lemma reading_Inr: "reading globals names k = Inr r \<Longrightarrow> k = Inr r"
  by (auto simp: reading_def split: option.splits)

lemma now_in_actions: "reading actions_globals [''now''] k = k"
  by (rule reading_bound) (simp add: actions_globals_def)

lemma Schedule_not_in_actions: "''Schedule'' \<notin> set actions_globals"
  by (simp add: actions_globals_def)

lemma freeze_schedule_body_in_actions:
  assumes "name \<notin> set [''wip'', ''latest'']" "\<not> truthy (version schedule)" "name \<noteq> []"
  shows "freeze_schedule_body actions_globals selectors iter nulls_first now schedule name user
           notify_speakers db
         = (case save_published_version db (schedule\<lparr>published := Some now, version := Some name\<rparr>) of
              Inl e \<Rightarrow> Inl e
            | Inr db1 \<Rightarrow> Inl (NameError ''Schedule''))"
  using assms
  by (simp add: freeze_schedule_body_def now_in_actions Let_def
        reading_unbound[OF Schedule_not_in_actions] split: sum.splits)

lemma save_published_version_ok:
  assumes "\<exists>s\<in>set (schedules db). pk s = pk schedule"
    and "\<not> (\<exists>s\<in>set (schedules db). pk s \<noteq> pk schedule
                    \<and> event_pk (event s) = event_pk (event schedule) \<and> version s = Some name)"
  shows "\<exists>db1. save_published_version db (schedule\<lparr>published := Some now, version := Some name\<rparr>)
           = Inr db1"
  using assms by (auto simp: save_published_version_def list_ex_iff)

text \<open>
  C2. In \<^verbatim>\<open>actions.py\<close> as it is, \<^verbatim>\<open>freeze_schedule\<close> never completes: every call raises
  and leaves the database as it was. A call that passes the three checks and whose
  \<^verbatim>\<open>save\<close> succeeds (the schedule is stored and the name is not in use in the event)
  raises \<^verbatim>\<open>NameError\<close> for \<^verbatim>\<open>Schedule\<close>, which the module never imports, when it is
  about to create the new draft; the two \<^verbatim>\<open>update\<close> statements that set the visibility
  are never reached, so no slot's visibility is recomputed.
\<close>

theorem freeze_schedule_in_actions:
  fixes iter :: "slot_key list \<Rightarrow> slot_key list"
  shows "(\<exists>e. freeze_schedule actions_globals selectors iter nulls_first now schedule name user
                notify_speakers db = (Inl e, db))
       \<and> (name \<notin> set [''wip'', ''latest''] \<and> \<not> truthy (version schedule) \<and> name \<noteq> []
            \<and> (\<exists>s\<in>set (schedules db). pk s = pk schedule)
            \<and> \<not> (\<exists>s\<in>set (schedules db). pk s \<noteq> pk schedule
                    \<and> event_pk (event s) = event_pk (event schedule) \<and> version s = Some name)
          \<longrightarrow> freeze_schedule actions_globals selectors iter nulls_first now schedule name user
                notify_speakers db = (Inl (NameError ''Schedule''), db))"
proof (intro conjI impI)
  let ?body = "freeze_schedule_body actions_globals selectors iter nulls_first now schedule name
                 user notify_speakers"
  have "\<exists>e. ?body db = Inl e"
  proof (cases "name \<notin> set [''wip'', ''latest''] \<and> \<not> truthy (version schedule) \<and> name \<noteq> []")
    case True
    then show ?thesis
      by (simp add: freeze_schedule_body_in_actions split: sum.splits)
  next
    case False
    then show ?thesis
      by (auto simp: freeze_schedule_body_def)
  qed
  then show "\<exists>e. freeze_schedule actions_globals selectors iter nulls_first now schedule name user
                notify_speakers db = (Inl e, db)"
    by (auto simp: freeze_schedule_def atomic_def)
next
  assume a: "name \<notin> set [''wip'', ''latest''] \<and> \<not> truthy (version schedule) \<and> name \<noteq> []
            \<and> (\<exists>s\<in>set (schedules db). pk s = pk schedule)
            \<and> \<not> (\<exists>s\<in>set (schedules db). pk s \<noteq> pk schedule
                    \<and> event_pk (event s) = event_pk (event schedule) \<and> version s = Some name)"
  then obtain db1 where
    "save_published_version db (schedule\<lparr>published := Some now, version := Some name\<rparr>) = Inr db1"
    using save_published_version_ok[of db schedule name now] by blast
  with a have "freeze_schedule_body actions_globals selectors iter nulls_first now schedule name
                 user notify_speakers db = Inl (NameError ''Schedule'')"
    by (simp add: freeze_schedule_body_in_actions)
  then show "freeze_schedule actions_globals selectors iter nulls_first now schedule name user
                notify_speakers db = (Inl (NameError ''Schedule''), db)"
    by (simp add: freeze_schedule_def atomic_def)
qed

text \<open>Freezing the draft of the example as \<open>v2\<close> raises and changes nothing.\<close>

theorem freeze_schedule_in_actions_witness:
  "freeze_schedule actions_globals selectors_globals rev False 200 schedule_wip ''v2'' 7 True
     example_db = (Inl (NameError ''Schedule''), example_db)"
proof -
  have "''v2'' \<notin> set [''wip'', ''latest''] \<and> \<not> truthy (version schedule_wip) \<and> ''v2'' \<noteq> []
            \<and> (\<exists>s\<in>set (schedules example_db). pk s = pk schedule_wip)
            \<and> \<not> (\<exists>s\<in>set (schedules example_db). pk s \<noteq> pk schedule_wip
                    \<and> event_pk (event s) = event_pk (event schedule_wip) \<and> version s = Some ''v2'')"
    by (simp add: truthy_def schedule_wip_def schedule_v1_def example_db_def)
  with freeze_schedule_in_actions[of selectors_globals rev False 200 schedule_wip "''v2''" 7 True
         example_db]
  show ?thesis by blast
qed

text \<open>
  C3, as the claim states it, fails at the reserved name \<open>wip\<close>: the call raises, and
  leaves the database as it was, but what it raises is Python's base \<^verbatim>\<open>Exception\<close> with
  the reason as its message, not a \<^verbatim>\<open>ValidationError\<close>.
\<close>

theorem freeze_schedule_reserved_name_counterexample:
  "freeze_schedule actions_globals selectors_globals rev False 200 schedule_wip ''wip'' 7
     True example_db
   = (Inl (Exception (''Cannot use reserved name '' @ [CHR 0x22] @ ''wip'' @ [CHR 0x22]
                  @ '' for schedule version.'')), example_db)
   \<and> \<not> raises_validation_error
         (fst (freeze_schedule actions_globals selectors_globals rev False 200 schedule_wip
                 ''wip'' 7 True example_db))"
  by (simp add: freeze_schedule_def atomic_def freeze_schedule_body_def
      raises_validation_error_def)

text \<open>
  C3, amended. If \<^verbatim>\<open>freeze_schedule\<close> is called with an empty name, with one of the
  reserved names \<open>wip\<close> and \<open>latest\<close>, or on a schedule that has a version (a non-empty
  string, as Python tests it), it raises an \<^verbatim>\<open>Exception\<close> that carries the reason, and
  the database after the call is the database before it: the schedule's version and
  published fields and all slots are unchanged. This holds whatever names the two
  modules bind, since the checks read none.
\<close>

theorem freeze_schedule_rejects:
  fixes iter :: "slot_key list \<Rightarrow> slot_key list"
  assumes "name = [] \<or> name \<in> set [''wip'', ''latest''] \<or> truthy (version schedule)"
  shows "\<exists>msg. freeze_schedule globals selectors iter nulls_first now schedule name user
                  notify_speakers db = (Inl (Exception msg), db)"
proof -
  from assms have "\<exists>msg. freeze_schedule_body globals selectors iter nulls_first now schedule name
                      user notify_speakers db = Inl (Exception msg)"
    by (auto simp: freeze_schedule_body_def)
  then show ?thesis
    by (auto simp: freeze_schedule_def atomic_def)
qed

text \<open>
  In the example, freezing the released version \<open>v1\<close> again and freezing the draft
  without a name are both refused.
\<close>

theorem freeze_schedule_rejects_witness:
  "truthy (version schedule_v1)
   \<and> freeze_schedule actions_globals selectors_globals rev False 200 schedule_v1 ''v9'' 7 True
       example_db
     = (Inl (Exception (''Cannot freeze schedule version: already versioned as '' @ [CHR 0x22]
                         @ ''v1'' @ [CHR 0x22] @ ''.'')), example_db)
   \<and> (\<exists>msg. freeze_schedule actions_globals selectors_globals rev False 200 schedule_wip [] 7
               True example_db = (Inl (Exception msg), example_db))"
proof -
  have t: "truthy (version schedule_v1)" by (simp add: truthy_def schedule_v1_def)
  from freeze_schedule_rejects[of "''v9''" schedule_v1, OF disjI2, OF disjI2, OF t,
         of actions_globals selectors_globals rev False 200 7 True example_db]
  have 1: "freeze_schedule actions_globals selectors_globals rev False 200 schedule_v1 ''v9'' 7 True
       example_db
     = (Inl (Exception (''Cannot freeze schedule version: already versioned as '' @ [CHR 0x22]
                         @ ''v1'' @ [CHR 0x22] @ ''.'')), example_db)"
    by (simp add: freeze_schedule_def atomic_def freeze_schedule_body_def truthy_def
        format_version_def schedule_v1_def)
  from freeze_schedule_rejects[of "[]" schedule_wip, OF disjI1, OF refl,
         of actions_globals selectors_globals rev False 200 7 True example_db]
  have 2: "\<exists>msg. freeze_schedule actions_globals selectors_globals rev False 200 schedule_wip [] 7
               True example_db = (Inl (Exception msg), example_db)" .
  from t 1 2 show ?thesis by blast
qed

section \<open>Properties of unfreeze\<close>
















end
